theory Spec2Isabelle
  imports Main
begin

section \<open>Effect summaries\<close>

text \<open>
  A \<open>const nts::Variable *\<close> is an address; only its identity matters to the pass.
\<close>

type_synonym var = nat

text \<open>
  \<^verbatim>\<open>struct GlobalWrites { std::set<const nts::Variable *> vars; bool everything; }\<close>
  (tasks.hpp).  The fields are public, so the record admits every combination of
  the two; the header documents invariant I1: if \<open>everything\<close> is true then
  \<open>vars\<close> is empty.
\<close>

record GlobalWrites =
  vars :: "var set"
  everything :: bool

definition GlobalWrites_I1 :: "GlobalWrites \<Rightarrow> bool" where
  "GlobalWrites_I1 gw = (everything gw \<longrightarrow> vars gw = {})"

text \<open>\<^verbatim>\<open>GlobalWrites() : everything ( false ) { ; }\<close>\<close>

definition GlobalWrites_new :: GlobalWrites where
  "GlobalWrites_new = \<lparr>vars = {}, everything = False\<rparr>"

text \<open>\<^verbatim>\<open>insert_everything: vars.clear(); everything = true;\<close>\<close>

definition GlobalWrites_insert_everything :: "GlobalWrites \<Rightarrow> GlobalWrites" where
  "GlobalWrites_insert_everything this = this\<lparr>vars := {}, everything := True\<rparr>"

text \<open>
  \<^verbatim>\<open>union_with\<close>: first the receiver becomes universal when the operand is and
  the receiver is not; a universal receiver then returns; otherwise the operand's
  variables are inserted.
\<close>

definition GlobalWrites_union_with :: "GlobalWrites \<Rightarrow> GlobalWrites \<Rightarrow> GlobalWrites" where
  "GlobalWrites_union_with this other =
     (let this1 = (if everything other \<and> \<not> everything this
                   then GlobalWrites_insert_everything this else this)
      in if everything this1 then this1
         else this1\<lparr>vars := vars this1 \<union> vars other\<rparr>)"

text \<open>\<^verbatim>\<open>contains\<close>: universal answers true, else set membership.\<close>

definition GlobalWrites_contains :: "GlobalWrites \<Rightarrow> var \<Rightarrow> bool" where
  "GlobalWrites_contains this v = (if everything this then True else v \<in> vars this)"

text \<open>\<^verbatim>\<open>insert\<close>: nothing happens on a universal summary.\<close>

definition GlobalWrites_insert :: "GlobalWrites \<Rightarrow> var \<Rightarrow> GlobalWrites" where
  "GlobalWrites_insert this v =
     (if everything this then this else this\<lparr>vars := insert v (vars this)\<rparr>)"

text \<open>
  Modelled from the spec: \<^verbatim>\<open>GlobalWrites::clear\<close> is declared in tasks.hpp and its
  body is not among the source files.  It is taken to reset the summary to the exact,
  empty one, the value the constructor builds.
\<close>

definition GlobalWrites_clear :: "GlobalWrites \<Rightarrow> GlobalWrites" where
  "GlobalWrites_clear this = this\<lparr>vars := {}, everything := False\<rparr>"

text \<open>
  \<^verbatim>\<open>struct GlobalReads : std::set<const nts::Variable *>\<close> and
  \<^verbatim>\<open>struct Globals { GlobalReads reads; GlobalWrites writes; }\<close>.
\<close>

type_synonym GlobalReads = "var set"

record Globals =
  reads :: GlobalReads
  writes :: GlobalWrites

text \<open>The implicit default constructor of \<^verbatim>\<open>Globals\<close>.\<close>

definition Globals_new :: Globals where
  "Globals_new = \<lparr>reads = {}, writes = GlobalWrites_new\<rparr>"

text \<open>
  \<^verbatim>\<open>Globals::union_with\<close>: \<^verbatim>\<open>writes.union_with ( other.writes )\<close>, then the
  operand's reads are inserted.
\<close>

definition Globals_union_with :: "Globals \<Rightarrow> Globals \<Rightarrow> Globals" where
  "Globals_union_with this other =
     this\<lparr>writes := GlobalWrites_union_with (writes this) (writes other),
          reads := reads this \<union> reads other\<rparr>"

text \<open>
  Modelled from the spec: \<^verbatim>\<open>Globals::may_collide_with\<close> is declared in tasks.hpp
  (``Commutative. True iff there exists some global variable, which is read or modified
  by one Globals and modified by second Globals'') and its body is not among the source
  files.  The test below follows the spec's universal-write reading: a universal write
  collides with any non-empty reads or writes of the other side and with another
  universal write; two exact summaries collide when reads meet writes, writes meet
  reads, or writes meet writes.
\<close>

definition Globals_may_collide_with :: "Globals \<Rightarrow> Globals \<Rightarrow> bool" where
  "Globals_may_collide_with this other =
     (if everything (writes this)
      then (if everything (writes other) then True
            else if reads other \<noteq> {} then True
            else vars (writes other) \<noteq> {})
      else if everything (writes other)
      then (if reads this \<noteq> {} then True else vars (writes this) \<noteq> {})
      else if reads this \<inter> vars (writes other) \<noteq> {} then True
      else if vars (writes this) \<inter> reads other \<noteq> {} then True
      else vars (writes this) \<inter> vars (writes other) \<noteq> {})"


section \<open>The program representation, as far as the pass reads and writes it\<close>

text \<open>
  The library's objects (\<^verbatim>\<open>Nts\<close>, \<^verbatim>\<open>BasicNts\<close>, \<^verbatim>\<open>State\<close>,
  \<^verbatim>\<open>Transition\<close>) are referred to by address.  The pass reads a unit's name, its
  state and transition lists and a state's annotations, and it writes the
  \<^verbatim>\<open>user_data\<close> slot of states and transitions; the slots are therefore kept in a
  store indexed by address, the rest is immutable data.
\<close>

type_synonym ptr = nat

text \<open>
  An annotation is a string annotation (name and value) or one of another type (name
  only); \<^verbatim>\<open>find_annot_origin\<close> is a \<^verbatim>\<open>find_if\<close> for the first string
  annotation named \<^verbatim>\<open>origin\<close>.  The result stands for the \<^verbatim>\<open>AnnotString *\<close>:
  \<open>None\<close> is \<^verbatim>\<open>nullptr\<close>, \<open>Some v\<close> carries the \<^verbatim>\<open>value\<close> the caller reads.
\<close>

datatype Annotation = AnnotString string string | AnnotOther string

fun find_annot_origin :: "Annotation list \<Rightarrow> string option" where
  "find_annot_origin [] = None"
| "find_annot_origin (AnnotString n v # ants) =
     (if n = ''origin'' then Some v else find_annot_origin ants)"
| "find_annot_origin (AnnotOther n # ants) = find_annot_origin ants"

text \<open>
  \<^verbatim>\<open>std::string::find ( c )\<close>: the position of the first occurrence, \<open>None\<close>
  for \<^verbatim>\<open>npos\<close>.
\<close>

fun string_find :: "string \<Rightarrow> char \<Rightarrow> nat option" where
  "string_find [] c = None"
| "string_find (x # xs) c =
     (if x = c then Some 0
      else (case string_find xs c of None \<Rightarrow> None | Some k \<Rightarrow> Some (Suc k)))"

record State =
  st_addr :: ptr
  annotations :: "Annotation list"

record Transition =
  tr_addr :: ptr
  tr_from :: ptr
  tr_to :: ptr

record BasicNts =
  bn_name :: string
  bn_states :: "State list"
  bn_transitions :: "Transition list"

section \<open>Analysis records and tasks\<close>

text \<open>
  A \<^verbatim>\<open>Task *\<close> held by the pass is the sentinel object or a task allocated by
  \<^verbatim>\<open>split_to_tasks\<close>.  Each allocation is pushed to \<^verbatim>\<open>tasks\<close> at once and the
  vector is never reordered, so the i-th allocated task is \<^verbatim>\<open>tasks[i]\<close>.
\<close>

datatype task_ptr = IdleTask | RegTask nat

text \<open>\<^verbatim>\<open>struct StateInfo { nts::State * st; Task * t; }\<close>, \<open>None\<close> for a null task.\<close>

record StateInfo =
  si_st :: ptr
  si_t :: "task_ptr option"

text \<open>\<^verbatim>\<open>struct TransitionInfo { nts::Transition * transition; Globals global; }\<close>\<close>

record TransitionInfo =
  ti_transition :: ptr
  ti_global :: Globals

text \<open>
  \<^verbatim>\<open>struct Task\<close>: the name, the state records, the two summaries and the boundary
  states.  (\<^verbatim>\<open>has_number\<close> and \<^verbatim>\<open>number\<close> are left out: nothing in the pass
  reads or writes them.)  \<open>Task_new nm\<close> is \<^verbatim>\<open>t = new Task(); t->name = nm;\<close>:
  every container and summary is default-constructed.
\<close>

record Task =
  name :: string
  states :: "ptr list"
  direct_global :: Globals
  transitive_global :: Globals
  initial_states :: "ptr list"
  final_states :: "ptr list"

definition Task_new :: "string \<Rightarrow> Task" where
  "Task_new nm = \<lparr>name = nm, states = [], direct_global = Globals_new,
     transitive_global = Globals_new, initial_states = [], final_states = []\<rparr>"

text \<open>
  \<^verbatim>\<open>nts::Nts\<close>: the instances (each by the address of its \<^verbatim>\<open>basic_nts()\<close>), the
  units by address, and the two \<^verbatim>\<open>user_data\<close> stores.  A slot is \<open>None\<close> when
  the pointer is null.
\<close>

record Nts =
  instances :: "ptr list"
  basic_nts :: "ptr \<Rightarrow> BasicNts"
  state_user_data :: "ptr \<Rightarrow> StateInfo option"
  transition_user_data :: "ptr \<Rightarrow> TransitionInfo option"

text \<open>
  \<^verbatim>\<open>class Tasks\<close>.  \<^verbatim>\<open>toplevel_bnts\<close> is a \<^verbatim>\<open>std::set\<close> of addresses: a
  list without duplicates in increasing order, which is the order the set is iterated
  in.  \<^verbatim>\<open>main_task\<close> is \<open>None\<close> as long as nothing has been assigned to it.
\<close>

record Tasks =
  toplevel_bnts :: "ptr list"
  main_nts_name :: string
  tasks :: "Task list"
  name_to_task :: "string \<rightharpoonup> task_ptr"
  main_task :: "task_ptr option"
  idle_worker_task :: Task

text \<open>
  The constructor allocates the sentinel and names it; the comment in the source reads
  ``Do not add it to map - there could be some task with the same name''.
\<close>

definition Tasks_new :: Tasks where
  "Tasks_new = \<lparr>toplevel_bnts = [], main_nts_name = [], tasks = [],
     name_to_task = Map.empty, main_task = None,
     idle_worker_task = Task_new ''idle_worker_task''\<rparr>"

text \<open>\<^verbatim>\<open>std::set::insert\<close> on the sorted list.\<close>

definition set_insert :: "ptr \<Rightarrow> ptr list \<Rightarrow> ptr list" where
  "set_insert x s = (if x \<in> set s then s else insort x s)"

definition calculate_toplevel_bnts :: "Nts \<Rightarrow> Tasks \<Rightarrow> Tasks" where
  "calculate_toplevel_bnts n this =
     this\<lparr>toplevel_bnts := foldl (\<lambda>s i. set_insert i s) [] (instances n)\<rparr>"

section \<open>Partitioning states into tasks\<close>

text \<open>
  A \<^verbatim>\<open>throw logic_error ( msg )\<close> is the value \<open>logic_error msg\<close>.  A function that
  can throw returns \<open>Some e\<close> for the exception or \<open>None\<close> for a normal return,
  together with the objects as it leaves them: what was written before the throw stays
  written.  Output to \<^verbatim>\<open>cout\<close> is not modelled.
\<close>

datatype error = logic_error string

type_synonym world = "Nts \<times> Tasks"

text \<open>\<^verbatim>\<open>si->t = p\<close> for the record \<open>si\<close> that the state's slot points to.\<close>

definition set_task :: "Nts \<Rightarrow> State \<Rightarrow> StateInfo \<Rightarrow> task_ptr \<Rightarrow> Nts" where
  "set_task n s si p =
     n\<lparr>state_user_data := (state_user_data n)(st_addr s := Some (si\<lparr>si_t := Some p\<rparr>))\<rparr>"

text \<open>
  Lines 114 to 129 of \<^verbatim>\<open>split_to_tasks ( bn, split_by_annot )\<close>: look the name up,
  allocate and register a task when it is new, then set the record's task.
\<close>

definition assign_task :: "string \<Rightarrow> State \<Rightarrow> StateInfo \<Rightarrow> world \<Rightarrow> world" where
  "assign_task task_name s si w =
     (case w of (n, this) \<Rightarrow>
        (case name_to_task this task_name of
           None \<Rightarrow>
             (let p = RegTask (length (tasks this));
                  this' = this\<lparr>tasks := tasks this @ [Task_new task_name],
                               name_to_task := (name_to_task this)(task_name \<mapsto> p)\<rparr>
              in (set_task n s si p, this'))
         | Some p \<Rightarrow> (set_task n s si p, this)))"

text \<open>The body of the loop over \<^verbatim>\<open>bn.states()\<close>, for one state.\<close>

definition split_state :: "BasicNts \<Rightarrow> bool \<Rightarrow> State \<Rightarrow> world \<Rightarrow> error option \<times> world" where
  "split_state bn split_by_annot s w =
     (case w of (n, this) \<Rightarrow>
        if state_user_data n (st_addr s) \<noteq> None
        then (Some (logic_error ''Precondition R4 failed''), w)
        else
          (let si = \<lparr>si_st = st_addr s, si_t = None\<rparr>;
               n1 = n\<lparr>state_user_data := (state_user_data n)(st_addr s := Some si)\<rparr>
           in if split_by_annot
              then (case find_annot_origin (annotations s) of
                      None \<Rightarrow> (Some (logic_error ''Precondition R3 failed''), (n1, this))
                    | Some origin \<Rightarrow>
                        (case string_find origin CHR '':'' of
                           None \<Rightarrow> (None, (set_task n1 s si IdleTask, this))
                         | Some pos \<Rightarrow> (None, assign_task (take pos origin) s si (n1, this))))
              else (None, assign_task (bn_name bn) s si (n1, this))))"

fun split_states :: "BasicNts \<Rightarrow> bool \<Rightarrow> State list \<Rightarrow> world \<Rightarrow> error option \<times> world" where
  "split_states bn split_by_annot [] w = (None, w)"
| "split_states bn split_by_annot (s # ss) w =
     (case split_state bn split_by_annot s w of
        (Some e, w') \<Rightarrow> (Some e, w')
      | (None, w') \<Rightarrow> split_states bn split_by_annot ss w')"

definition split_to_tasks_bn :: "BasicNts \<Rightarrow> bool \<Rightarrow> world \<Rightarrow> error option \<times> world" where
  "split_to_tasks_bn bn split_by_annot w = split_states bn split_by_annot (bn_states bn) w"

text \<open>
  \<^verbatim>\<open>split_to_tasks()\<close>: the units of \<^verbatim>\<open>toplevel_bnts\<close> in turn, the main unit by
  its name, every other by origin annotation.
\<close>

fun split_units :: "ptr list \<Rightarrow> world \<Rightarrow> error option \<times> world" where
  "split_units [] w = (None, w)"
| "split_units (b # bs) w =
     (case split_to_tasks_bn (basic_nts (fst w) b)
             (if bn_name (basic_nts (fst w) b) = main_nts_name (snd w) then False else True) w of
        (Some e, w') \<Rightarrow> (Some e, w')
      | (None, w') \<Rightarrow> split_units bs w')"

definition split_to_tasks :: "world \<Rightarrow> error option \<times> world" where
  "split_to_tasks w = split_units (toplevel_bnts (snd w)) w"

section \<open>Transition records\<close>

text \<open>
  \<^verbatim>\<open>used_global_variables ( n, *t )\<close> is the external primitive (logic\_utils.hpp);
  it is a parameter \<open>ugv\<close> of the model.  The record is attached first, then its
  summary is assigned from the primitive.
\<close>

definition transition_info :: "(Nts \<Rightarrow> Transition \<Rightarrow> Globals) \<Rightarrow> Transition \<Rightarrow> Nts \<Rightarrow> error option \<times> Nts" where
  "transition_info ugv tr n =
     (if transition_user_data n (tr_addr tr) \<noteq> None
      then (Some (logic_error ''Precondition Q2 does not hold''), n)
      else
        (let ti = \<lparr>ti_transition = tr_addr tr, ti_global = Globals_new\<rparr>;
             n1 = n\<lparr>transition_user_data := (transition_user_data n)(tr_addr tr := Some ti)\<rparr>
         in (None, n1\<lparr>transition_user_data :=
               (transition_user_data n1)(tr_addr tr := Some (ti\<lparr>ti_global := ugv n1 tr\<rparr>))\<rparr>)))"

fun transition_infos :: "(Nts \<Rightarrow> Transition \<Rightarrow> Globals) \<Rightarrow> Transition list \<Rightarrow> Nts \<Rightarrow> error option \<times> Nts" where
  "transition_infos ugv [] n = (None, n)"
| "transition_infos ugv (tr # trs) n =
     (case transition_info ugv tr n of
        (Some e, n') \<Rightarrow> (Some e, n')
      | (None, n') \<Rightarrow> transition_infos ugv trs n')"

fun transition_units :: "(Nts \<Rightarrow> Transition \<Rightarrow> Globals) \<Rightarrow> ptr list \<Rightarrow> Nts \<Rightarrow> error option \<times> Nts" where
  "transition_units ugv [] n = (None, n)"
| "transition_units ugv (b # bs) n =
     (case transition_infos ugv (bn_transitions (basic_nts n b)) n of
        (Some e, n') \<Rightarrow> (Some e, n')
      | (None, n') \<Rightarrow> transition_units ugv bs n')"

definition compute_transition_info :: "(Nts \<Rightarrow> Transition \<Rightarrow> Globals) \<Rightarrow> world \<Rightarrow> error option \<times> Nts" where
  "compute_transition_info ugv w = transition_units ugv (toplevel_bnts (snd w)) (fst w)"

section \<open>The entry point\<close>

text \<open>
  \<^verbatim>\<open>Tasks::compute_tasks ( n, main_nts )\<close>: construct, set the main unit's name,
  collect the instantiated units, partition, compute the transition records, return.
  An exception leaves the function with no \<^verbatim>\<open>Tasks\<close> object (\<open>Inl\<close>); the program
  representation is returned in either case, as the caller finds it afterwards.
\<close>

definition compute_tasks :: "(Nts \<Rightarrow> Transition \<Rightarrow> Globals) \<Rightarrow> Nts \<Rightarrow> string \<Rightarrow> (error + Tasks) \<times> Nts" where
  "compute_tasks ugv n main_nts =
     (let tasks0 = Tasks_new\<lparr>main_nts_name := main_nts\<rparr>;
          tasks1 = calculate_toplevel_bnts n tasks0
      in case split_to_tasks (n, tasks1) of
           (Some e, (n', tasks')) \<Rightarrow> (Inl e, n')
         | (None, (n', tasks')) \<Rightarrow>
             (case compute_transition_info ugv (n', tasks') of
                (Some e, n'') \<Rightarrow> (Inl e, n'')
              | (None, n'') \<Rightarrow> (Inr tasks', n'')))"


section \<open>Transitive summaries\<close>

text \<open>
  Modelled from the spec: \<^verbatim>\<open>Tasks::compute_transitive_globals\<close> is declared in
  tasks.hpp (``In current implementation, this is very trivial: We do not assume
  anything, so each task may activate every task (including itself)'') and its body is
  not among the source files; \<^verbatim>\<open>compute_tasks\<close> as given does not call it.  Following
  the spec (``a single pass: transitive[T] = union of direct[U] for all U in tasks, for
  each T''), the direct summaries of all tasks are accumulated with
  \<^verbatim>\<open>Globals::union_with\<close> into a fresh summary, which every task then receives.
\<close>

definition compute_transitive_globals :: "Tasks \<Rightarrow> Tasks" where
  "compute_transitive_globals this =
     (let g = foldl (\<lambda>g u. Globals_union_with g (direct_global u)) Globals_new (tasks this)
      in this\<lparr>tasks := map (\<lambda>t. t\<lparr>transitive_global := g\<rparr>) (tasks this)\<rparr>)"

section \<open>Notions used to state and prove the properties of the pass\<close>

text \<open>
  The order in which the pass visits the states: the units of \<^verbatim>\<open>toplevel_bnts\<close> in
  the set's order, the states of each in list order.  A visit records the unit, whether
  the unit is partitioned by origin annotation (it is not the main unit), and the state.
\<close>

type_synonym visit = "BasicNts \<times> bool \<times> State"

definition unit_visits :: "Nts \<Rightarrow> string \<Rightarrow> ptr \<Rightarrow> visit list" where
  "unit_visits n main_nts b =
     map (\<lambda>s. (basic_nts n b, bn_name (basic_nts n b) \<noteq> main_nts, s))
       (bn_states (basic_nts n b))"

definition state_visits :: "Nts \<Rightarrow> string \<Rightarrow> visit list" where
  "state_visits n main_nts =
     concat (map (unit_visits n main_nts) (foldl (\<lambda>s i. set_insert i s) [] (instances n)))"

definition transition_visits :: "Nts \<Rightarrow> Transition list" where
  "transition_visits n =
     concat (map (\<lambda>b. bn_transitions (basic_nts n b))
       (foldl (\<lambda>s i. set_insert i s) [] (instances n)))"

definition visit_addr :: "visit \<Rightarrow> ptr" where
  "visit_addr v = st_addr (snd (snd v))"

text \<open>A visit by origin annotation whose state has no origin annotation.\<close>

definition lacks_origin :: "visit \<Rightarrow> bool" where
  "lacks_origin v = (fst (snd v) \<and> find_annot_origin (annotations (snd (snd v))) = None)"

text \<open>
  The visits of a list all pass the two checks of \<^verbatim>\<open>split_to_tasks\<close>: no state
  carries a record beforehand, none is visited twice, and each one visited by origin
  annotation has an origin annotation.  Likewise for transitions.
\<close>

definition states_pass :: "Nts \<Rightarrow> visit list \<Rightarrow> bool" where
  "states_pass n vs =
     (distinct (map visit_addr vs)
      \<and> (\<forall>v \<in> set vs. state_user_data n (visit_addr v) = None \<and> \<not> lacks_origin v))"

definition transitions_pass :: "Nts \<Rightarrow> Transition list \<Rightarrow> bool" where
  "transitions_pass n ts =
     (distinct (map tr_addr ts) \<and> (\<forall>tr \<in> set ts. transition_user_data n (tr_addr tr) = None))"

text \<open>
  A state visited after the visits \<open>pre\<close> already carries a record: one it came
  with, or the one attached at an earlier visit of the same state.  Likewise for a
  transition visited after the transitions \<open>pre\<close>.
\<close>

definition state_carries_record :: "Nts \<Rightarrow> visit list \<Rightarrow> visit \<Rightarrow> bool" where
  "state_carries_record n pre v =
     (if visit_addr v \<in> visit_addr ` set pre then True
      else state_user_data n (visit_addr v) \<noteq> None)"

definition transition_carries_record :: "Nts \<Rightarrow> Transition list \<Rightarrow> Transition \<Rightarrow> bool" where
  "transition_carries_record n pre tr =
     (if tr_addr tr \<in> tr_addr ` set pre then True
      else transition_user_data n (tr_addr tr) \<noteq> None)"

text \<open>
  The task name that lines 90 to 112 of \<^verbatim>\<open>split_to_tasks\<close> compute for a state:
  the unit's name, or the part of the origin before the first colon; \<open>None\<close> when
  there is no such name (no origin annotation, or an origin without a colon).
\<close>

definition task_name_of :: "BasicNts \<Rightarrow> bool \<Rightarrow> State \<Rightarrow> string option" where
  "task_name_of bn split_by_annot s =
     (if split_by_annot
      then (case find_annot_origin (annotations s) of
              None \<Rightarrow> None
            | Some origin \<Rightarrow>
                (case string_find origin CHR '':'' of
                   None \<Rightarrow> None
                 | Some pos \<Rightarrow> Some (take pos origin)))
      else Some (bn_name bn))"

text \<open>The flat loop over a list of visits.\<close>

fun split_visits :: "visit list \<Rightarrow> world \<Rightarrow> error option \<times> world" where
  "split_visits [] w = (None, w)"
| "split_visits (v # vs) w =
     (case split_state (fst v) (fst (snd v)) (snd (snd v)) w of
        (Some e, w') \<Rightarrow> (Some e, w')
      | (None, w') \<Rightarrow> split_visits vs w')"

text \<open>
  The name table is consistent with the task list: every entry is a registered task of
  that name.
\<close>

definition tasks_wf :: "Tasks \<Rightarrow> bool" where
  "tasks_wf this =
     (\<forall>nm p. name_to_task this nm = Some p \<longrightarrow>
        (\<exists>i. p = RegTask i \<and> i < length (tasks this) \<and> name (tasks this ! i) = nm))"

text \<open>The state at address \<open>a\<close> is owned by the registered task named \<open>nm\<close>.\<close>

definition assigned_to :: "Nts \<Rightarrow> Tasks \<Rightarrow> ptr \<Rightarrow> string \<Rightarrow> bool" where
  "assigned_to n this a nm =
     (\<exists>i. state_user_data n a = Some \<lparr>si_st = a, si_t = Some (RegTask i)\<rparr>
          \<and> i < length (tasks this) \<and> name (tasks this ! i) = nm
          \<and> name_to_task this nm = Some (RegTask i))"

text \<open>The state at address \<open>a\<close> is owned by the sentinel.\<close>

definition assigned_to_idle :: "Nts \<Rightarrow> ptr \<Rightarrow> bool" where
  "assigned_to_idle n a =
     (state_user_data n a = Some \<lparr>si_st = a, si_t = Some IdleTask\<rparr>)"

text \<open>
  What one world keeps of an earlier one: the program apart from the state slots, which
  only gain records; the task list, which only grows at its end; the name table, which
  only gains entries; and the other members of \<^verbatim>\<open>Tasks\<close>.
\<close>

definition grows :: "world \<Rightarrow> world \<Rightarrow> bool" where
  "grows w w' =
     (instances (fst w') = instances (fst w)
      \<and> basic_nts (fst w') = basic_nts (fst w)
      \<and> transition_user_data (fst w') = transition_user_data (fst w)
      \<and> (\<forall>a x. state_user_data (fst w) a = Some x \<longrightarrow> state_user_data (fst w') a = Some x)
      \<and> toplevel_bnts (snd w') = toplevel_bnts (snd w)
      \<and> main_nts_name (snd w') = main_nts_name (snd w)
      \<and> main_task (snd w') = main_task (snd w)
      \<and> idle_worker_task (snd w') = idle_worker_task (snd w)
      \<and> (\<exists>ts. tasks (snd w') = tasks (snd w) @ ts \<and> (\<forall>t \<in> set ts. t = Task_new (name t)))
      \<and> (\<forall>nm p. name_to_task (snd w) nm = Some p \<longrightarrow> name_to_task (snd w') nm = Some p))"

text \<open>What a successful visit leaves: the state is owned as its task name says.\<close>

definition visit_post :: "visit \<Rightarrow> Nts \<Rightarrow> Tasks \<Rightarrow> bool" where
  "visit_post v n T =
     (case task_name_of (fst v) (fst (snd v)) (snd (snd v)) of
        None \<Rightarrow> assigned_to_idle n (visit_addr v)
      | Some nm \<Rightarrow> assigned_to n T (visit_addr v) nm)"

text \<open>
  The \<^verbatim>\<open>Tasks\<close> object as \<^verbatim>\<open>compute_tasks\<close> has it before partitioning.
\<close>

definition tasks_init :: "Nts \<Rightarrow> string \<Rightarrow> Tasks" where
  "tasks_init n main_nts = calculate_toplevel_bnts n (Tasks_new\<lparr>main_nts_name := main_nts\<rparr>)"

section \<open>Example programs\<close>

text \<open>
  A program with two instantiated units (the second one instantiated twice): the main
  unit with one state and one transition, and a unit whose three states carry the
  origins \<open>worker:3:label\<close>, \<open>s_running_1\<close> and \<open>idle_worker_task:0:st\<close>.  The
  primitive reports that every transition reads variable 7.  In the second program the
  middle state of the second unit has no string annotation named \<open>origin\<close>.  The
  last example is a \<^verbatim>\<open>Tasks\<close> object with two tasks whose direct summaries are
  set.
\<close>

definition example_main :: BasicNts where
  "example_main = \<lparr>bn_name = ''main'',
     bn_states = [\<lparr>st_addr = 10, annotations = []\<rparr>],
     bn_transitions = [\<lparr>tr_addr = 100, tr_from = 10, tr_to = 10\<rparr>]\<rparr>"

definition example_pool :: BasicNts where
  "example_pool = \<lparr>bn_name = ''thread_pool'',
     bn_states =
       [\<lparr>st_addr = 20, annotations = [AnnotOther ''origin'', AnnotString ''origin'' ''worker:3:label'']\<rparr>,
        \<lparr>st_addr = 21, annotations = [AnnotString ''origin'' ''s_running_1'']\<rparr>,
        \<lparr>st_addr = 22, annotations = [AnnotString ''origin'' ''idle_worker_task:0:st'']\<rparr>],
     bn_transitions = []\<rparr>"

definition example_nts :: Nts where
  "example_nts = \<lparr>instances = [2, 1, 2],
     basic_nts = (\<lambda>b. if b = 1 then example_main else example_pool),
     state_user_data = (\<lambda>a. None), transition_user_data = (\<lambda>a. None)\<rparr>"

definition example_ugv :: "Nts \<Rightarrow> Transition \<Rightarrow> Globals" where
  "example_ugv n tr = \<lparr>reads = {7}, writes = \<lparr>vars = {}, everything = False\<rparr>\<rparr>"

definition example_pool_missing :: BasicNts where
  "example_pool_missing = \<lparr>bn_name = ''thread_pool'',
     bn_states =
       [\<lparr>st_addr = 20, annotations = [AnnotString ''origin'' ''worker:3:label'']\<rparr>,
        \<lparr>st_addr = 21, annotations = [AnnotOther ''origin'']\<rparr>,
        \<lparr>st_addr = 22, annotations = [AnnotString ''origin'' ''worker:4:label'']\<rparr>],
     bn_transitions = []\<rparr>"

definition example_missing :: Nts where
  "example_missing = \<lparr>instances = [2, 1],
     basic_nts = (\<lambda>b. if b = 1 then example_main else example_pool_missing),
     state_user_data = (\<lambda>a. None), transition_user_data = (\<lambda>a. None)\<rparr>"

definition example_tasks :: Tasks where
  "example_tasks = Tasks_new\<lparr>tasks :=
     [(Task_new ''a'')\<lparr>direct_global := \<lparr>reads = {1}, writes = \<lparr>vars = {2}, everything = False\<rparr>\<rparr>\<rparr>,
      (Task_new ''b'')\<lparr>direct_global := \<lparr>reads = {3}, writes = \<lparr>vars = {}, everything = True\<rparr>\<rparr>\<rparr>]\<rparr>"

section \<open>Laws of the effect summaries\<close>

lemma GlobalWrites_union_with_simps:
  "everything this \<Longrightarrow> GlobalWrites_union_with this other = this"
  "\<not> everything this \<Longrightarrow> everything other \<Longrightarrow>
     GlobalWrites_union_with this other = this\<lparr>vars := {}, everything := True\<rparr>"
  "\<not> everything this \<Longrightarrow> \<not> everything other \<Longrightarrow>
     GlobalWrites_union_with this other = this\<lparr>vars := vars this \<union> vars other\<rparr>"
  by (simp_all add: GlobalWrites_union_with_def GlobalWrites_insert_everything_def)

lemma GlobalWrites_union_with_commute:
  "GlobalWrites_I1 a \<Longrightarrow> GlobalWrites_I1 b \<Longrightarrow>
     GlobalWrites_union_with a b = GlobalWrites_union_with b a"
  by (cases "everything a"; cases "everything b")
     (auto simp: GlobalWrites_union_with_simps GlobalWrites_I1_def Un_commute)

lemma GlobalWrites_union_with_assoc:
  "GlobalWrites_union_with (GlobalWrites_union_with a b) c =
   GlobalWrites_union_with a (GlobalWrites_union_with b c)"
  by (cases "everything a"; cases "everything b"; cases "everything c")
     (auto simp: GlobalWrites_union_with_simps Un_assoc)

lemma GlobalWrites_union_with_idem: "GlobalWrites_union_with a a = a"
  by (cases "everything a") (auto simp: GlobalWrites_union_with_simps)

text \<open>
  Claim C3.  Union of effect summaries (component-wise on reads and writes) is
  commutative, associative and idempotent; unioning with a universal write summary, on
  either side, yields a universal write summary; the union of two exact write sets is
  the exact set union.  Summaries are the values that satisfy the documented invariant
  I1; commutativity is the one law that depends on it (a universal receiver is returned
  as it is, with whatever \<open>vars\<close> it holds), the others hold for every value of the
  struct.
\<close>

theorem Globals_union_with_laws:
  "(GlobalWrites_I1 (writes a) \<and> GlobalWrites_I1 (writes b) \<longrightarrow>
      Globals_union_with a b = Globals_union_with b a)
   \<and> Globals_union_with (Globals_union_with a b) c =
       Globals_union_with a (Globals_union_with b c)
   \<and> Globals_union_with a a = a
   \<and> reads (Globals_union_with a b) = reads a \<union> reads b
   \<and> (everything (writes a) \<or> everything (writes b) \<longrightarrow>
        everything (writes (Globals_union_with a b)))
   \<and> (GlobalWrites_I1 (writes a) \<and> (everything (writes a) \<or> everything (writes b)) \<longrightarrow>
        writes (Globals_union_with a b) = \<lparr>vars = {}, everything = True\<rparr>)
   \<and> (\<not> everything (writes a) \<and> \<not> everything (writes b) \<longrightarrow>
        writes (Globals_union_with a b) =
          \<lparr>vars = vars (writes a) \<union> vars (writes b), everything = False\<rparr>)"
proof (intro conjI impI)
  assume "GlobalWrites_I1 (writes a) \<and> GlobalWrites_I1 (writes b)"
  then show "Globals_union_with a b = Globals_union_with b a"
    by (cases a; cases b)
       (simp add: Globals_union_with_def GlobalWrites_union_with_commute Un_commute)
next
  show "Globals_union_with (Globals_union_with a b) c =
        Globals_union_with a (Globals_union_with b c)"
    by (simp add: Globals_union_with_def GlobalWrites_union_with_assoc Un_assoc)
next
  show "Globals_union_with a a = a"
    by (simp add: Globals_union_with_def GlobalWrites_union_with_idem)
next
  show "reads (Globals_union_with a b) = reads a \<union> reads b"
    by (simp add: Globals_union_with_def)
next
  assume "everything (writes a) \<or> everything (writes b)"
  then show "everything (writes (Globals_union_with a b))"
    by (cases "everything (writes a)")
       (auto simp: Globals_union_with_def GlobalWrites_union_with_simps)
next
  assume "GlobalWrites_I1 (writes a) \<and> (everything (writes a) \<or> everything (writes b))"
  then show "writes (Globals_union_with a b) = \<lparr>vars = {}, everything = True\<rparr>"
    by (cases "everything (writes a)")
       (auto simp: Globals_union_with_def GlobalWrites_union_with_simps GlobalWrites_I1_def)
next
  assume "\<not> everything (writes a) \<and> \<not> everything (writes b)"
  then show "writes (Globals_union_with a b) =
      \<lparr>vars = vars (writes a) \<union> vars (writes b), everything = False\<rparr>"
    by (auto simp: Globals_union_with_def GlobalWrites_union_with_simps)
qed

theorem Globals_union_with_laws_witness:
  "GlobalWrites_I1 \<lparr>vars = {2, 3}, everything = False\<rparr>
   \<and> GlobalWrites_I1 \<lparr>vars = {}, everything = True\<rparr>
   \<and> Globals_union_with \<lparr>reads = {1}, writes = \<lparr>vars = {2, 3}, everything = False\<rparr>\<rparr>
        \<lparr>reads = {4}, writes = \<lparr>vars = {}, everything = True\<rparr>\<rparr>
      = Globals_union_with \<lparr>reads = {4}, writes = \<lparr>vars = {}, everything = True\<rparr>\<rparr>
        \<lparr>reads = {1}, writes = \<lparr>vars = {2, 3}, everything = False\<rparr>\<rparr>
   \<and> writes (Globals_union_with \<lparr>reads = {1}, writes = \<lparr>vars = {2, 3}, everything = False\<rparr>\<rparr>
        \<lparr>reads = {4}, writes = \<lparr>vars = {}, everything = True\<rparr>\<rparr>)
      = \<lparr>vars = {}, everything = True\<rparr>
   \<and> reads (Globals_union_with \<lparr>reads = {1}, writes = \<lparr>vars = {2, 3}, everything = False\<rparr>\<rparr>
        \<lparr>reads = {4}, writes = \<lparr>vars = {}, everything = True\<rparr>\<rparr>)
      = {1, 4}"
  using Globals_union_with_laws
    [of "\<lparr>reads = {1}, writes = \<lparr>vars = {2, 3}, everything = False\<rparr>\<rparr>"
        "\<lparr>reads = {4}, writes = \<lparr>vars = {}, everything = True\<rparr>\<rparr>"
        "\<lparr>reads = {}, writes = \<lparr>vars = {}, everything = False\<rparr>\<rparr>"]
  by (simp add: GlobalWrites_I1_def Globals_union_with_def GlobalWrites_union_with_def
      GlobalWrites_insert_everything_def insert_commute)

text \<open>Without invariant I1 the union of write summaries is not commutative.\<close>

lemma GlobalWrites_union_with_needs_I1:
  "GlobalWrites_union_with \<lparr>vars = {1}, everything = True\<rparr> \<lparr>vars = {}, everything = False\<rparr>
     \<noteq> GlobalWrites_union_with \<lparr>vars = {}, everything = False\<rparr> \<lparr>vars = {1}, everything = True\<rparr>"
  by (simp add: GlobalWrites_union_with_def GlobalWrites_insert_everything_def)

text \<open>
  Claim C4.  The collision predicate is commutative, and two summaries collide exactly
  when some variable is read by one and written by the other, or written by both, where
  a universal write summary counts as writing every variable (\<open>GlobalWrites_contains\<close>):
  so a universal write collides with any non-empty reads or writes of the other side,
  and with another universal write.
\<close>

theorem Globals_may_collide_with_spec:
  "Globals_may_collide_with a b = Globals_may_collide_with b a
   \<and> (Globals_may_collide_with a b \<longleftrightarrow>
        (\<exists>v. (v \<in> reads a \<and> GlobalWrites_contains (writes b) v)
           \<or> (GlobalWrites_contains (writes a) v \<and> v \<in> reads b)
           \<or> (GlobalWrites_contains (writes a) v \<and> GlobalWrites_contains (writes b) v)))
   \<and> (everything (writes a) \<longrightarrow>
        (Globals_may_collide_with a b \<longleftrightarrow>
           reads b \<noteq> {} \<or> vars (writes b) \<noteq> {} \<or> everything (writes b)))"
proof (intro conjI impI)
  show "Globals_may_collide_with a b = Globals_may_collide_with b a"
    by (auto simp: Globals_may_collide_with_def)
next
  show "Globals_may_collide_with a b \<longleftrightarrow>
        (\<exists>v. (v \<in> reads a \<and> GlobalWrites_contains (writes b) v)
           \<or> (GlobalWrites_contains (writes a) v \<and> v \<in> reads b)
           \<or> (GlobalWrites_contains (writes a) v \<and> GlobalWrites_contains (writes b) v))"
    by (auto simp: Globals_may_collide_with_def GlobalWrites_contains_def)
next
  assume "everything (writes a)"
  then show "Globals_may_collide_with a b \<longleftrightarrow>
      reads b \<noteq> {} \<or> vars (writes b) \<noteq> {} \<or> everything (writes b)"
    by (auto simp: Globals_may_collide_with_def)
qed

theorem Globals_may_collide_with_spec_witness:
  "everything (writes \<lparr>reads = {}, writes = \<lparr>vars = {}, everything = True\<rparr>\<rparr>)
   \<and> Globals_may_collide_with \<lparr>reads = {}, writes = \<lparr>vars = {}, everything = True\<rparr>\<rparr>
        \<lparr>reads = {7}, writes = \<lparr>vars = {}, everything = False\<rparr>\<rparr>
   \<and> Globals_may_collide_with \<lparr>reads = {7}, writes = \<lparr>vars = {}, everything = False\<rparr>\<rparr>
        \<lparr>reads = {}, writes = \<lparr>vars = {}, everything = True\<rparr>\<rparr>"
  using Globals_may_collide_with_spec
    [of "\<lparr>reads = {}, writes = \<lparr>vars = {}, everything = True\<rparr>\<rparr>"
        "\<lparr>reads = {7}, writes = \<lparr>vars = {}, everything = False\<rparr>\<rparr>"]
  by (simp add: Globals_may_collide_with_def)

text \<open>
  Claim C6.  Invariant I1 of the write summary (the universal marker is set only when
  the exact set is empty) holds for the constructed summary and is preserved by
  \<^verbatim>\<open>insert\<close>, \<^verbatim>\<open>insert_everything\<close>, \<^verbatim>\<open>union_with\<close> (whatever the operand)
  and \<^verbatim>\<open>clear\<close>.
\<close>

theorem GlobalWrites_I1_preserved:
  "GlobalWrites_I1 GlobalWrites_new
   \<and> (GlobalWrites_I1 gw \<longrightarrow> GlobalWrites_I1 (GlobalWrites_insert gw v))
   \<and> GlobalWrites_I1 (GlobalWrites_insert_everything gw)
   \<and> (GlobalWrites_I1 gw \<longrightarrow> GlobalWrites_I1 (GlobalWrites_union_with gw other))
   \<and> GlobalWrites_I1 (GlobalWrites_clear gw)"
  by (auto simp: GlobalWrites_I1_def GlobalWrites_new_def GlobalWrites_insert_def
      GlobalWrites_insert_everything_def GlobalWrites_union_with_def
      GlobalWrites_clear_def Let_def)

theorem GlobalWrites_I1_preserved_witness:
  "GlobalWrites_I1 \<lparr>vars = {1}, everything = False\<rparr>
   \<and> GlobalWrites_I1 (GlobalWrites_insert \<lparr>vars = {1}, everything = False\<rparr> 2)
   \<and> GlobalWrites_I1 (GlobalWrites_insert_everything \<lparr>vars = {1}, everything = False\<rparr>)
   \<and> GlobalWrites_I1 (GlobalWrites_union_with \<lparr>vars = {1}, everything = False\<rparr>
        \<lparr>vars = {5}, everything = True\<rparr>)
   \<and> GlobalWrites_I1 (GlobalWrites_clear \<lparr>vars = {1}, everything = False\<rparr>)"
  using GlobalWrites_I1_preserved
    [of "\<lparr>vars = {1}, everything = False\<rparr>" 2 "\<lparr>vars = {5}, everything = True\<rparr>"]
  by (simp add: GlobalWrites_I1_def GlobalWrites_insert_def GlobalWrites_insert_everything_def
      GlobalWrites_union_with_def GlobalWrites_clear_def)

section \<open>The partition loop\<close>


subsection \<open>One visit\<close>

lemma split_state_R4:
  "state_user_data n (st_addr s) \<noteq> None \<Longrightarrow>
     split_state bn ba s (n, T) = (Some (logic_error ''Precondition R4 failed''), (n, T))"
  by (simp add: split_state_def)

lemma split_state_R3:
  "state_user_data n (st_addr s) = None \<Longrightarrow> find_annot_origin (annotations s) = None \<Longrightarrow>
     split_state bn True s (n, T) =
       (Some (logic_error ''Precondition R3 failed''),
        (n\<lparr>state_user_data := (state_user_data n)(st_addr s := Some \<lparr>si_st = st_addr s, si_t = None\<rparr>)\<rparr>, T))"
  by (simp add: split_state_def)

lemma split_state_idle:
  "state_user_data n (st_addr s) = None \<Longrightarrow> find_annot_origin (annotations s) = Some origin \<Longrightarrow>
   string_find origin CHR '':'' = None \<Longrightarrow>
     split_state bn True s (n, T) =
       (None,
        (n\<lparr>state_user_data := (state_user_data n)(st_addr s := Some \<lparr>si_st = st_addr s, si_t = Some IdleTask\<rparr>)\<rparr>, T))"
  by (simp add: split_state_def set_task_def)

lemma assign_task_new:
  "name_to_task T nm = None \<Longrightarrow>
     assign_task nm s si (n, T) =
       (n\<lparr>state_user_data := (state_user_data n)(st_addr s := Some (si\<lparr>si_t := Some (RegTask (length (tasks T)))\<rparr>))\<rparr>,
        T\<lparr>tasks := tasks T @ [Task_new nm],
          name_to_task := (name_to_task T)(nm \<mapsto> RegTask (length (tasks T)))\<rparr>)"
  by (simp add: assign_task_def set_task_def Let_def)

lemma assign_task_found:
  "name_to_task T nm = Some p \<Longrightarrow>
     assign_task nm s si (n, T) =
       (n\<lparr>state_user_data := (state_user_data n)(st_addr s := Some (si\<lparr>si_t := Some p\<rparr>))\<rparr>, T)"
  by (simp add: assign_task_def set_task_def)

lemma split_state_named_annot:
  "state_user_data n (st_addr s) = None \<Longrightarrow> find_annot_origin (annotations s) = Some origin \<Longrightarrow>
   string_find origin CHR '':'' = Some pos \<Longrightarrow>
     split_state bn True s (n, T) =
       (None, assign_task (take pos origin) s \<lparr>si_st = st_addr s, si_t = None\<rparr>
          (n\<lparr>state_user_data := (state_user_data n)(st_addr s := Some \<lparr>si_st = st_addr s, si_t = None\<rparr>)\<rparr>, T))"
  by (simp add: split_state_def Let_def)

lemma split_state_named_unit:
  "state_user_data n (st_addr s) = None \<Longrightarrow>
     split_state bn False s (n, T) =
       (None, assign_task (bn_name bn) s \<lparr>si_st = st_addr s, si_t = None\<rparr>
          (n\<lparr>state_user_data := (state_user_data n)(st_addr s := Some \<lparr>si_st = st_addr s, si_t = None\<rparr>)\<rparr>, T))"
  by (simp add: split_state_def Let_def)

text \<open>The outcome of a visit depends on the two checks only.\<close>

lemma split_state_outcome:
  "fst (split_state bn ba s (n, T)) =
     (if state_user_data n (st_addr s) \<noteq> None then Some (logic_error ''Precondition R4 failed'')
      else if ba \<and> find_annot_origin (annotations s) = None
      then Some (logic_error ''Precondition R3 failed'')
      else None)"
  by (auto simp: split_state_def Let_def split: option.splits)

lemma grows_refl: "grows w w"
  by (simp add: grows_def)

lemma grows_trans: "grows w1 w2 \<Longrightarrow> grows w2 w3 \<Longrightarrow> grows w1 w3"
  unfolding grows_def
  apply (elim conjE exE)
  apply (intro conjI)
           apply simp_all
  apply auto
  done

lemma grows_attach:
  "state_user_data n a = None \<Longrightarrow>
     grows (n, T) (n\<lparr>state_user_data := (state_user_data n)(a := Some x)\<rparr>, T)"
  by (simp add: grows_def)

lemma grows_assign_task:
  assumes "state_user_data n (st_addr s) = None"
  shows "grows (n, T) (assign_task nm s si
           (n\<lparr>state_user_data := (state_user_data n)(st_addr s := Some si0)\<rparr>, T))"
proof (cases "name_to_task T nm")
  case None
  then show ?thesis using assms
    by (simp add: assign_task_new grows_def Task_new_def)
next
  case (Some p)
  then show ?thesis using assms
    by (simp add: assign_task_found grows_def)
qed

lemma split_state_grows: "split_state bn ba s w = (r, w') \<Longrightarrow> grows w w'"
proof -
  obtain n T where w: "w = (n, T)" by (cases w)
  assume a: "split_state bn ba s w = (r, w')"
  show ?thesis
  proof (cases "state_user_data n (st_addr s)")
    case (Some x)
    with a w show ?thesis by (simp add: split_state_R4 grows_refl)
  next
    case None
    note fresh = this
    show ?thesis
    proof (cases ba)
      case False
      with a w fresh show ?thesis
        using grows_assign_task[OF fresh] by (auto simp: split_state_named_unit)
    next
      case True
      show ?thesis
      proof (cases "find_annot_origin (annotations s)")
        case None
        with a w fresh True show ?thesis
          by (auto simp: split_state_R3 grows_attach)
      next
        case (Some origin)
        note org = this
        show ?thesis
        proof (cases "string_find origin CHR '':''")
          case None
          with a w fresh True org show ?thesis
            by (auto simp: split_state_idle grows_attach)
        next
          case (Some pos)
          with a w fresh True org show ?thesis
            using grows_assign_task[OF fresh] by (auto simp: split_state_named_annot)
        qed
      qed
    qed
  qed
qed


lemma split_state_cases [consumes 1, case_names R4 R3 Idle New Found]:
  assumes "split_state bn ba s (n, T) = (r, w')"
  obtains
    (R4) "state_user_data n (st_addr s) \<noteq> None"
         "r = Some (logic_error ''Precondition R4 failed'')" "w' = (n, T)"
  | (R3) "state_user_data n (st_addr s) = None" "ba"
         "find_annot_origin (annotations s) = None"
         "r = Some (logic_error ''Precondition R3 failed'')"
         "w' = (n\<lparr>state_user_data := (state_user_data n)(st_addr s := Some \<lparr>si_st = st_addr s, si_t = None\<rparr>)\<rparr>, T)"
  | (Idle) origin where "state_user_data n (st_addr s) = None" "ba"
         "find_annot_origin (annotations s) = Some origin" "string_find origin CHR '':'' = None"
         "task_name_of bn ba s = None" "r = None"
         "w' = (n\<lparr>state_user_data := (state_user_data n)(st_addr s := Some \<lparr>si_st = st_addr s, si_t = Some IdleTask\<rparr>)\<rparr>, T)"
  | (New) nm where "state_user_data n (st_addr s) = None"
         "task_name_of bn ba s = Some nm" "name_to_task T nm = None" "r = None"
         "w' = (n\<lparr>state_user_data := (state_user_data n)(st_addr s :=
                    Some \<lparr>si_st = st_addr s, si_t = Some (RegTask (length (tasks T)))\<rparr>)\<rparr>,
                T\<lparr>tasks := tasks T @ [Task_new nm],
                  name_to_task := (name_to_task T)(nm \<mapsto> RegTask (length (tasks T)))\<rparr>)"
  | (Found) nm p where "state_user_data n (st_addr s) = None"
         "task_name_of bn ba s = Some nm" "name_to_task T nm = Some p" "r = None"
         "w' = (n\<lparr>state_user_data := (state_user_data n)(st_addr s :=
                    Some \<lparr>si_st = st_addr s, si_t = Some p\<rparr>)\<rparr>, T)"
proof (cases "state_user_data n (st_addr s)")
  case (Some x)
  with assms R4 show ?thesis by (simp add: split_state_R4)
next
  case None
  note fresh = this
  show ?thesis
  proof (cases "task_name_of bn ba s")
    case (Some nm)
    have step: "split_state bn ba s (n, T) =
      (None, assign_task nm s \<lparr>si_st = st_addr s, si_t = None\<rparr>
          (n\<lparr>state_user_data := (state_user_data n)(st_addr s := Some \<lparr>si_st = st_addr s, si_t = None\<rparr>)\<rparr>, T))"
      using Some fresh
      by (cases ba)
         (auto simp: task_name_of_def split_state_named_unit split_state_named_annot
               split: option.splits)
    show ?thesis
    proof (cases "name_to_task T nm")
      case None
      with step assms show ?thesis
        using New[OF fresh Some None] by (simp add: assign_task_new)
    next
      case (Some p)
      with step assms show ?thesis
        using Found[OF fresh \<open>task_name_of bn ba s = Some nm\<close> Some] by (simp add: assign_task_found)
    qed
  next
    case None
    then have ba: ba by (simp add: task_name_of_def split: if_splits)
    show ?thesis
    proof (cases "find_annot_origin (annotations s)")
      case None
      with assms fresh ba show ?thesis
        using R3[OF fresh ba None] by (simp add: split_state_R3)
    next
      case (Some origin)
      with \<open>task_name_of bn ba s = None\<close> ba
      have nf: "string_find origin CHR '':'' = None"
        by (simp add: task_name_of_def split: option.splits)
      with assms fresh ba Some show ?thesis
        using Idle[OF fresh ba Some nf \<open>task_name_of bn ba s = None\<close>]
        by (simp add: split_state_idle)
    qed
  qed
qed


lemma split_state_wf:
  assumes "split_state bn ba s (n, T) = (r, (n', T'))" "tasks_wf T"
  shows "tasks_wf T'"
  using assms(1)
proof (cases rule: split_state_cases)
  case (New nm)
  have "\<exists>i. p = RegTask i \<and> i < length (tasks T') \<and> name (tasks T' ! i) = nm'"
    if "name_to_task T' nm' = Some p" for nm' p
  proof (cases "nm' = nm")
    case True
    with that New show ?thesis by (auto simp: Task_new_def)
  next
    case False
    with that New have "name_to_task T nm' = Some p" by auto
    with assms(2) obtain i where "p = RegTask i" "i < length (tasks T)" "name (tasks T ! i) = nm'"
      unfolding tasks_wf_def by blast
    with New show ?thesis by (auto simp: nth_append)
  qed
  then show ?thesis unfolding tasks_wf_def by blast
qed (use assms(2) in auto)

lemma split_state_post:
  assumes "split_state bn ba s (n, T) = (None, (n', T'))" "tasks_wf T"
  shows "visit_post (bn, ba, s) n' T'"
  using assms(1)
proof (cases rule: split_state_cases)
  case (Idle origin)
  then show ?thesis by (simp add: visit_post_def assigned_to_idle_def visit_addr_def)
next
  case (New nm)
  then show ?thesis
    by (simp add: visit_post_def assigned_to_def visit_addr_def Task_new_def)
next
  case (Found nm p)
  with assms(2) obtain i where "p = RegTask i" "i < length (tasks T)" "name (tasks T ! i) = nm"
    unfolding tasks_wf_def by blast
  with Found show ?thesis
    by (simp add: visit_post_def assigned_to_def visit_addr_def)
qed simp_all

lemma split_state_dom:
  assumes "split_state bn ba s (n, T) = (None, (n', T'))"
  shows "state_user_data n (st_addr s) = None
         \<and> (\<forall>a. state_user_data n' a = None \<longleftrightarrow> (a \<noteq> st_addr s \<and> state_user_data n a = None))
         \<and> (\<exists>p. state_user_data n' (st_addr s) = Some \<lparr>si_st = st_addr s, si_t = Some p\<rparr>)"
  using assms
  by (cases rule: split_state_cases) auto

lemma assigned_to_grows:
  "assigned_to n T a nm \<Longrightarrow> grows (n, T) (n', T') \<Longrightarrow> assigned_to n' T' a nm"
  unfolding assigned_to_def grows_def
  by (auto simp: nth_append)

lemma assigned_to_idle_grows:
  "assigned_to_idle n a \<Longrightarrow> grows (n, T) (n', T') \<Longrightarrow> assigned_to_idle n' a"
  unfolding assigned_to_idle_def grows_def by auto

lemma visit_post_grows:
  "visit_post v n T \<Longrightarrow> grows (n, T) (n', T') \<Longrightarrow> visit_post v n' T'"
  unfolding visit_post_def
  by (auto split: option.splits intro: assigned_to_grows assigned_to_idle_grows)

subsection \<open>The flat loop\<close>

lemma split_visits_grows: "split_visits vs w = (r, w') \<Longrightarrow> grows w w'"
proof (induction vs arbitrary: w)
  case Nil
  then show ?case by (simp add: grows_refl)
next
  case (Cons v vs)
  obtain r1 w1 where step: "split_state (fst v) (fst (snd v)) (snd (snd v)) w = (r1, w1)"
    by (cases "split_state (fst v) (fst (snd v)) (snd (snd v)) w")
  then have g1: "grows w w1" by (rule split_state_grows)
  show ?case
  proof (cases r1)
    case None
    with Cons.prems step have "split_visits vs w1 = (r, w')" by simp
    then have "grows w1 w'" by (rule Cons.IH)
    with g1 show ?thesis by (rule grows_trans)
  next
    case (Some e)
    with Cons.prems step have "w' = w1" by simp
    with g1 show ?thesis by simp
  qed
qed

lemma split_visits_wf:
  "split_visits vs w = (r, w') \<Longrightarrow> tasks_wf (snd w) \<Longrightarrow> tasks_wf (snd w')"
proof (induction vs arbitrary: w)
  case Nil
  then show ?case by simp
next
  case (Cons v vs)
  obtain r1 n1 T1 where step: "split_state (fst v) (fst (snd v)) (snd (snd v)) w = (r1, (n1, T1))"
    by (cases "split_state (fst v) (fst (snd v)) (snd (snd v)) w") auto
  with Cons.prems(2) have wf1: "tasks_wf T1"
    using split_state_wf[of "fst v" "fst (snd v)" "snd (snd v)" "fst w" "snd w" r1 n1 T1] by simp
  show ?case
  proof (cases r1)
    case None
    with Cons.prems step have "split_visits vs (n1, T1) = (r, w')" by simp
    with wf1 show ?thesis using Cons.IH[of "(n1, T1)"] by simp
  next
    case (Some e)
    with Cons.prems step wf1 show ?thesis by auto
  qed
qed

lemma split_visits_post:
  "split_visits vs w = (None, w') \<Longrightarrow> tasks_wf (snd w) \<Longrightarrow>
     \<forall>v \<in> set vs. visit_post v (fst w') (snd w')"
proof (induction vs arbitrary: w)
  case Nil
  then show ?case by simp
next
  case (Cons v vs)
  obtain r1 n1 T1 where step: "split_state (fst v) (fst (snd v)) (snd (snd v)) w = (r1, (n1, T1))"
    by (cases "split_state (fst v) (fst (snd v)) (snd (snd v)) w") auto
  with Cons.prems(1) have r1: "r1 = None" and rest: "split_visits vs (n1, T1) = (None, w')"
    by (auto split: option.splits)
  from step r1 Cons.prems(2) have wf1: "tasks_wf T1"
    using split_state_wf[of "fst v" "fst (snd v)" "snd (snd v)" "fst w" "snd w" r1 n1 T1] by simp
  from step r1 Cons.prems(2) have "visit_post (fst v, fst (snd v), snd (snd v)) n1 T1"
    using split_state_post[of "fst v" "fst (snd v)" "snd (snd v)" "fst w" "snd w" n1 T1] by simp
  then have "visit_post v n1 T1" by simp
  moreover from rest have "grows (n1, T1) w'" by (rule split_visits_grows)
  ultimately have "visit_post v (fst w') (snd w')"
    using visit_post_grows[of v n1 T1 "fst w'" "snd w'"] by simp
  moreover from rest wf1 have "\<forall>v \<in> set vs. visit_post v (fst w') (snd w')"
    using Cons.IH[of "(n1, T1)"] by simp
  ultimately show ?case by simp
qed


lemma split_visits_append:
  "split_visits (xs @ ys) w =
     (case split_visits xs w of
        (Some e, w') \<Rightarrow> (Some e, w')
      | (None, w') \<Rightarrow> split_visits ys w')"
  by (induction xs arbitrary: w) (auto split: prod.splits option.splits)

text \<open>Success of the loop is the two checks passing at every visit.\<close>

lemma states_pass_Cons:
  "states_pass n (v # vs) \<longleftrightarrow>
     state_user_data n (visit_addr v) = None \<and> \<not> lacks_origin v
     \<and> visit_addr v \<notin> visit_addr ` set vs \<and> states_pass n vs"
  by (auto simp: states_pass_def)

lemma states_pass_step:
  assumes "\<forall>a. state_user_data n1 a = None \<longleftrightarrow> (a \<noteq> visit_addr v \<and> state_user_data n a = None)"
  shows "states_pass n1 vs \<longleftrightarrow> visit_addr v \<notin> visit_addr ` set vs \<and> states_pass n vs"
  using assms by (auto simp: states_pass_def image_iff)

lemma split_state_outcome_visit:
  "fst (split_state (fst v) (fst (snd v)) (snd (snd v)) (n, T)) = None \<longleftrightarrow>
     state_user_data n (visit_addr v) = None \<and> \<not> lacks_origin v"
  by (simp add: split_state_outcome visit_addr_def lacks_origin_def)

lemma split_visits_success_iff:
  "fst (split_visits vs (n, T)) = None \<longleftrightarrow> states_pass n vs"
proof (induction vs arbitrary: n T)
  case Nil
  then show ?case by (simp add: states_pass_def)
next
  case (Cons v vs)
  obtain r1 n1 T1 where step: "split_state (fst v) (fst (snd v)) (snd (snd v)) (n, T) = (r1, (n1, T1))"
    by (cases "split_state (fst v) (fst (snd v)) (snd (snd v)) (n, T)") auto
  show ?case
  proof (cases r1)
    case (Some e)
    with step have "\<not> (state_user_data n (visit_addr v) = None \<and> \<not> lacks_origin v)"
      using split_state_outcome_visit[of v n T] by simp
    with step Some show ?thesis by (auto simp: states_pass_Cons)
  next
    case None
    with step have ok: "state_user_data n (visit_addr v) = None \<and> \<not> lacks_origin v"
      using split_state_outcome_visit[of v n T] by simp
    from step None have
      "\<forall>a. state_user_data n1 a = None \<longleftrightarrow> (a \<noteq> visit_addr v \<and> state_user_data n a = None)"
      using split_state_dom[of "fst v" "fst (snd v)" "snd (snd v)" n T n1 T1]
      by (simp add: visit_addr_def)
    then have "states_pass n1 vs \<longleftrightarrow> visit_addr v \<notin> visit_addr ` set vs \<and> states_pass n vs"
      by (rule states_pass_step)
    with step None ok Cons.IH[of n1 T1] show ?thesis
      by (simp add: states_pass_Cons)
  qed
qed

text \<open>After a successful loop the slots that hold a record are the old ones and the visited ones.\<close>

lemma split_visits_dom:
  "split_visits vs (n, T) = (None, (n', T')) \<Longrightarrow>
     (state_user_data n' a = None \<longleftrightarrow>
        a \<notin> visit_addr ` set vs \<and> state_user_data n a = None)"
proof (induction vs arbitrary: n T)
  case Nil
  then show ?case by simp
next
  case (Cons v vs)
  obtain r1 n1 T1 where step: "split_state (fst v) (fst (snd v)) (snd (snd v)) (n, T) = (r1, (n1, T1))"
    by (cases "split_state (fst v) (fst (snd v)) (snd (snd v)) (n, T)") auto
  with Cons.prems have r1: "r1 = None" and rest: "split_visits vs (n1, T1) = (None, (n', T'))"
    by (auto split: option.splits)
  from step r1 have
    "\<forall>a. state_user_data n1 a = None \<longleftrightarrow> (a \<noteq> visit_addr v \<and> state_user_data n a = None)"
    using split_state_dom[of "fst v" "fst (snd v)" "snd (snd v)" n T n1 T1]
    by (simp add: visit_addr_def)
  with Cons.IH[OF rest] show ?case by auto
qed

text \<open>A failing loop fails at its first failing visit.\<close>

lemma split_visits_error:
  "split_visits vs w = (Some e, w') \<Longrightarrow>
     \<exists>pre v post w1. vs = pre @ v # post \<and> split_visits pre w = (None, w1)
        \<and> split_state (fst v) (fst (snd v)) (snd (snd v)) w1 = (Some e, w')"
proof (induction vs arbitrary: w)
  case Nil
  then show ?case by simp
next
  case (Cons v vs)
  obtain r1 w1 where step: "split_state (fst v) (fst (snd v)) (snd (snd v)) w = (r1, w1)"
    by (cases "split_state (fst v) (fst (snd v)) (snd (snd v)) w")
  show ?case
  proof (cases r1)
    case (Some e1)
    with step Cons.prems have "e1 = e" "w1 = w'" by auto
    with step Some have "v # vs = [] @ v # vs \<and> split_visits [] w = (None, w)
        \<and> split_state (fst v) (fst (snd v)) (snd (snd v)) w = (Some e, w')" by simp
    then show ?thesis by blast
  next
    case None
    with step Cons.prems have "split_visits vs w1 = (Some e, w')" by simp
    from Cons.IH[OF this] obtain pre u post w2 where
      d: "vs = pre @ u # post" "split_visits pre w1 = (None, w2)"
         "split_state (fst u) (fst (snd u)) (snd (snd u)) w2 = (Some e, w')" by blast
    from d(2) step None have "split_visits (v # pre) w = (None, w2)" by simp
    with d(1,3) have "v # vs = (v # pre) @ u # post \<and> split_visits (v # pre) w = (None, w2)
        \<and> split_state (fst u) (fst (snd u)) (snd (snd u)) w2 = (Some e, w')" by simp
    then show ?thesis by blast
  qed
qed

lemma split_visits_error_conv:
  "split_visits pre w = (None, w1) \<Longrightarrow>
   split_state (fst v) (fst (snd v)) (snd (snd v)) w1 = (Some e, w') \<Longrightarrow>
     split_visits (pre @ v # post) w = (Some e, w')"
  by (simp add: split_visits_append)

subsection \<open>The nested loops are the flat loop\<close>

lemma split_states_flat:
  "split_states bn ba ss w = split_visits (map (\<lambda>s. (bn, ba, s)) ss) w"
  by (induction ss arbitrary: w) (auto split: prod.splits option.splits)

lemma split_units_flat:
  "split_units bs w =
     split_visits (concat (map (unit_visits (fst w) (main_nts_name (snd w))) bs)) w"
proof (induction bs arbitrary: w)
  case Nil
  then show ?case by simp
next
  case (Cons b bs)
  let ?bn = "basic_nts (fst w) b"
  let ?ba = "if bn_name ?bn = main_nts_name (snd w) then False else True"
  have uv: "unit_visits (fst w) (main_nts_name (snd w)) b = map (\<lambda>s. (?bn, ?ba, s)) (bn_states ?bn)"
    by (simp add: unit_visits_def)
  obtain r1 w1 where first: "split_visits (unit_visits (fst w) (main_nts_name (snd w)) b) w = (r1, w1)"
    by (cases "split_visits (unit_visits (fst w) (main_nts_name (snd w)) b) w")
  then have g: "grows w w1" by (rule split_visits_grows)
  then have same: "basic_nts (fst w1) = basic_nts (fst w)" "main_nts_name (snd w1) = main_nts_name (snd w)"
    by (simp_all add: grows_def)
  have unit: "split_to_tasks_bn ?bn ?ba w = (r1, w1)"
    using first by (simp add: split_to_tasks_bn_def split_states_flat uv)
  show ?case
  proof (cases r1)
    case None
    have "unit_visits (fst w1) (main_nts_name (snd w1)) = unit_visits (fst w) (main_nts_name (snd w))"
      by (rule ext) (simp add: unit_visits_def same)
    with None unit first Cons.IH[of w1] show ?thesis
      by (simp add: split_visits_append)
  next
    case (Some e)
    with unit first show ?thesis by (simp add: split_visits_append)
  qed
qed


subsection \<open>Transition records\<close>

lemma transition_info_Q2:
  "transition_user_data n (tr_addr tr) \<noteq> None \<Longrightarrow>
     transition_info ugv tr n = (Some (logic_error ''Precondition Q2 does not hold''), n)"
  by (simp add: transition_info_def)

lemma transition_info_ok:
  "transition_user_data n (tr_addr tr) = None \<Longrightarrow>
     transition_info ugv tr n =
       (None, n\<lparr>transition_user_data := (transition_user_data n)(tr_addr tr :=
          Some \<lparr>ti_transition = tr_addr tr,
                ti_global = ugv (n\<lparr>transition_user_data := (transition_user_data n)(tr_addr tr :=
                   Some \<lparr>ti_transition = tr_addr tr, ti_global = Globals_new\<rparr>)\<rparr>) tr\<rparr>)\<rparr>)"
  by (simp add: transition_info_def Let_def)

lemma transition_info_frame:
  "transition_info ugv tr n = (r, n') \<Longrightarrow>
     instances n' = instances n \<and> basic_nts n' = basic_nts n
     \<and> state_user_data n' = state_user_data n
     \<and> (\<forall>a x. transition_user_data n a = Some x \<longrightarrow> transition_user_data n' a = Some x)"
  by (cases "transition_user_data n (tr_addr tr)")
     (auto simp: transition_info_Q2 transition_info_ok)

lemma transition_infos_frame:
  "transition_infos ugv ts n = (r, n') \<Longrightarrow>
     instances n' = instances n \<and> basic_nts n' = basic_nts n
     \<and> state_user_data n' = state_user_data n
     \<and> (\<forall>a x. transition_user_data n a = Some x \<longrightarrow> transition_user_data n' a = Some x)"
proof (induction ts arbitrary: n)
  case Nil
  then show ?case by simp
next
  case (Cons tr ts)
  obtain r1 n1 where step: "transition_info ugv tr n = (r1, n1)"
    by (cases "transition_info ugv tr n")
  note f1 = transition_info_frame[OF step]
  show ?case
  proof (cases r1)
    case None
    with step Cons.prems have "transition_infos ugv ts n1 = (r, n')" by simp
    from Cons.IH[OF this] f1 show ?thesis by simp
  next
    case (Some e)
    with step Cons.prems f1 show ?thesis by auto
  qed
qed

lemma transition_infos_append:
  "transition_infos ugv (xs @ ys) n =
     (case transition_infos ugv xs n of
        (Some e, n') \<Rightarrow> (Some e, n')
      | (None, n') \<Rightarrow> transition_infos ugv ys n')"
  by (induction xs arbitrary: n) (auto split: prod.splits option.splits)

lemma transition_units_flat:
  "transition_units ugv bs n =
     transition_infos ugv (concat (map (\<lambda>b. bn_transitions (basic_nts n b)) bs)) n"
proof (induction bs arbitrary: n)
  case Nil
  then show ?case by simp
next
  case (Cons b bs)
  obtain r1 n1 where first: "transition_infos ugv (bn_transitions (basic_nts n b)) n = (r1, n1)"
    by (cases "transition_infos ugv (bn_transitions (basic_nts n b)) n")
  then have same: "basic_nts n1 = basic_nts n" using transition_infos_frame by blast
  show ?case
  proof (cases r1)
    case None
    with first same Cons.IH[of n1] show ?thesis by (simp add: transition_infos_append)
  next
    case (Some e)
    with first show ?thesis by (simp add: transition_infos_append)
  qed
qed

lemma transition_infos_success_iff:
  "fst (transition_infos ugv ts n) = None \<longleftrightarrow> transitions_pass n ts"
proof (induction ts arbitrary: n)
  case Nil
  then show ?case by (simp add: transitions_pass_def)
next
  case (Cons tr ts)
  show ?case
  proof (cases "transition_user_data n (tr_addr tr)")
    case (Some x)
    then show ?thesis by (simp add: transition_info_Q2 transitions_pass_def)
  next
    case None
    let ?n1 = "n\<lparr>transition_user_data := (transition_user_data n)(tr_addr tr :=
          Some \<lparr>ti_transition = tr_addr tr,
                ti_global = ugv (n\<lparr>transition_user_data := (transition_user_data n)(tr_addr tr :=
                   Some \<lparr>ti_transition = tr_addr tr, ti_global = Globals_new\<rparr>)\<rparr>) tr\<rparr>)\<rparr>"
    have "transitions_pass ?n1 ts \<longleftrightarrow> tr_addr tr \<notin> tr_addr ` set ts \<and> transitions_pass n ts"
      by (auto simp: transitions_pass_def image_iff)
    with None Cons.IH[of ?n1] show ?thesis
      by (auto simp: transition_info_ok transitions_pass_def)
  qed
qed

lemma transition_infos_dom:
  "transition_infos ugv ts n = (None, n') \<Longrightarrow>
     (transition_user_data n' a = None \<longleftrightarrow>
        a \<notin> tr_addr ` set ts \<and> transition_user_data n a = None)"
proof (induction ts arbitrary: n)
  case Nil
  then show ?case by simp
next
  case (Cons tr ts)
  show ?case
  proof (cases "transition_user_data n (tr_addr tr)")
    case (Some x)
    with Cons.prems show ?thesis by (simp add: transition_info_Q2)
  next
    case None
    with Cons.prems Cons.IH show ?thesis
      by (auto simp: transition_info_ok split: if_splits)
  qed
qed

lemma transition_infos_error:
  "transition_infos ugv ts n = (Some e, n') \<Longrightarrow>
     \<exists>pre tr post n1. ts = pre @ tr # post \<and> transition_infos ugv pre n = (None, n1)
        \<and> transition_info ugv tr n1 = (Some e, n')"
proof (induction ts arbitrary: n)
  case Nil
  then show ?case by simp
next
  case (Cons tr ts)
  obtain r1 n1 where step: "transition_info ugv tr n = (r1, n1)"
    by (cases "transition_info ugv tr n")
  show ?case
  proof (cases r1)
    case (Some e1)
    with step Cons.prems have "e1 = e" "n1 = n'" by auto
    with step Some have "tr # ts = [] @ tr # ts \<and> transition_infos ugv [] n = (None, n)
        \<and> transition_info ugv tr n = (Some e, n')" by simp
    then show ?thesis by blast
  next
    case None
    with step Cons.prems have "transition_infos ugv ts n1 = (Some e, n')" by simp
    from Cons.IH[OF this] obtain pre u post n2 where
      d: "ts = pre @ u # post" "transition_infos ugv pre n1 = (None, n2)"
         "transition_info ugv u n2 = (Some e, n')" by blast
    from d(2) step None have "transition_infos ugv (tr # pre) n = (None, n2)" by simp
    with d(1,3) have "tr # ts = (tr # pre) @ u # post \<and> transition_infos ugv (tr # pre) n = (None, n2)
        \<and> transition_info ugv u n2 = (Some e, n')" by simp
    then show ?thesis by blast
  qed
qed

subsection \<open>The entry point, unfolded\<close>

lemma tasks_init_simps:
  "toplevel_bnts (tasks_init n m) = foldl (\<lambda>s i. set_insert i s) [] (instances n)"
  "main_nts_name (tasks_init n m) = m"
  "tasks (tasks_init n m) = []"
  "name_to_task (tasks_init n m) = Map.empty"
  "main_task (tasks_init n m) = None"
  "idle_worker_task (tasks_init n m) = Task_new ''idle_worker_task''"
  by (simp_all add: tasks_init_def calculate_toplevel_bnts_def Tasks_new_def)

lemma tasks_init_wf: "tasks_wf (tasks_init n m)"
  by (simp add: tasks_wf_def tasks_init_simps)

lemma compute_tasks_unfold:
  "compute_tasks ugv n m =
     (case split_visits (state_visits n m) (n, tasks_init n m) of
        (Some e, (n', T')) \<Rightarrow> (Inl e, n')
      | (None, (n', T')) \<Rightarrow>
          (case transition_infos ugv (transition_visits n) n' of
             (Some e, n'') \<Rightarrow> (Inl e, n'')
           | (None, n'') \<Rightarrow> (Inr T', n'')))"
proof -
  have split: "split_to_tasks (n, tasks_init n m) = split_visits (state_visits n m) (n, tasks_init n m)"
    by (simp add: split_to_tasks_def split_units_flat state_visits_def tasks_init_simps)
  obtain r n' T' where sv: "split_visits (state_visits n m) (n, tasks_init n m) = (r, (n', T'))"
    by (cases "split_visits (state_visits n m) (n, tasks_init n m)") auto
  then have "grows (n, tasks_init n m) (n', T')" by (rule split_visits_grows)
  then have same: "basic_nts n' = basic_nts n" "instances n' = instances n"
      "toplevel_bnts T' = toplevel_bnts (tasks_init n m)"
    by (simp_all add: grows_def)
  have tr: "compute_transition_info ugv (n', T') = transition_infos ugv (transition_visits n) n'"
    by (simp add: compute_transition_info_def transition_units_flat transition_visits_def
        same tasks_init_simps)
  show ?thesis
    unfolding compute_tasks_def Let_def tasks_init_def[symmetric] split sv
    by (cases r) (simp_all add: tr)
qed

section \<open>The pass as a whole\<close>


subsection \<open>Outcomes of the entry point\<close>

lemma compute_tasks_Inr_D:
  assumes "compute_tasks ugv n m = (Inr T, n')"
  shows "\<exists>n1. split_visits (state_visits n m) (n, tasks_init n m) = (None, (n1, T))
           \<and> transition_infos ugv (transition_visits n) n1 = (None, n')"
  using assms unfolding compute_tasks_unfold
  by (auto split: prod.splits option.splits)

lemma compute_tasks_Inl_D:
  assumes "compute_tasks ugv n m = (Inl e, n')"
  shows "(\<exists>T1. split_visits (state_visits n m) (n, tasks_init n m) = (Some e, (n', T1)))
         \<or> (\<exists>n1 T1. split_visits (state_visits n m) (n, tasks_init n m) = (None, (n1, T1))
               \<and> transition_infos ugv (transition_visits n) n1 = (Some e, n'))"
  using assms unfolding compute_tasks_unfold
  by (auto split: prod.splits option.splits)

lemma string_find_None: "string_find xs c = None \<longleftrightarrow> c \<notin> set xs"
  by (induction xs) (auto split: option.splits)

lemma string_find_Some: "string_find xs c = Some pos \<Longrightarrow> take pos xs = takeWhile (\<lambda>x. x \<noteq> c) xs"
  by (induction xs arbitrary: pos) (auto split: option.splits if_splits)

text \<open>What a successful run establishes.\<close>

lemma compute_tasks_success:
  assumes "compute_tasks ugv n m = (Inr T, n')"
  shows "tasks_wf T"
    and "\<forall>v \<in> set (state_visits n m). visit_post v n' T"
    and "idle_worker_task T = Task_new ''idle_worker_task''"
    and "main_task T = None"
    and "\<forall>t \<in> set (tasks T). t = Task_new (name t)"
proof -
  from compute_tasks_Inr_D[OF assms] obtain n1 where
    sv: "split_visits (state_visits n m) (n, tasks_init n m) = (None, (n1, T))" and
    ti: "transition_infos ugv (transition_visits n) n1 = (None, n')" by blast
  from sv show "tasks_wf T"
    using split_visits_wf[OF sv] tasks_init_wf by simp
  from transition_infos_frame[OF ti] have sud: "state_user_data n' = state_user_data n1" by simp
  have "\<forall>v \<in> set (state_visits n m). visit_post v n1 T"
    using split_visits_post[OF sv] tasks_init_wf by simp
  then show "\<forall>v \<in> set (state_visits n m). visit_post v n' T"
    by (auto simp: visit_post_def assigned_to_def assigned_to_idle_def sud split: option.splits)
  from split_visits_grows[OF sv] have g: "grows (n, tasks_init n m) (n1, T)" .
  then show "idle_worker_task T = Task_new ''idle_worker_task''"
    by (simp add: grows_def tasks_init_simps)
  from g show "main_task T = None"
    by (simp add: grows_def tasks_init_simps)
  from g show "\<forall>t \<in> set (tasks T). t = Task_new (name t)"
    by (auto simp: grows_def tasks_init_simps)
qed

text \<open>
  Claim C8.  The sentinel task is never entered into the name-to-task table: after any
  run of the pass that returns a result, no lookup by name yields the sentinel (states
  may be owned by it all the same, as the witness shows).
\<close>

theorem sentinel_never_in_name_to_task:
  "compute_tasks ugv n main_nts = (Inr T, n') \<Longrightarrow> name_to_task T nm \<noteq> Some IdleTask"
proof
  assume run: "compute_tasks ugv n main_nts = (Inr T, n')"
    and look: "name_to_task T nm = Some IdleTask"
  from compute_tasks_success(1)[OF run] look
  obtain i where "IdleTask = RegTask i" unfolding tasks_wf_def by blast
  then show False by simp
qed

lemma set_foldl_set_insert: "set (foldl (\<lambda>s i. set_insert i s) acc xs) = set acc \<union> set xs"
  by (induction xs arbitrary: acc) (auto simp: set_insert_def set_insort_key)

lemma state_visits_iff:
  "(bn, ba, s) \<in> set (state_visits n m) \<longleftrightarrow>
     (\<exists>b \<in> set (instances n). bn = basic_nts n b \<and> ba = (bn_name bn \<noteq> m) \<and> s \<in> set (bn_states bn))"
  by (auto simp: state_visits_def unit_visits_def set_foldl_set_insert)

text \<open>The outcome of the partition loop, in terms of the program it starts from.\<close>

lemma split_visits_outcome:
  "fst (split_visits vs (n, T)) = Some e \<longleftrightarrow>
     (\<exists>pre v post. vs = pre @ v # post \<and> states_pass n pre
        \<and> (if state_carries_record n pre v then e = logic_error ''Precondition R4 failed''
            else lacks_origin v \<and> e = logic_error ''Precondition R3 failed''))"
  (is "?L \<longleftrightarrow> ?R")
proof
  assume ?L
  then obtain w' where "split_visits vs (n, T) = (Some e, w')"
    by (cases "split_visits vs (n, T)") auto
  from split_visits_error[OF this] obtain pre v post n1 T1 where
    d: "vs = pre @ v # post" "split_visits pre (n, T) = (None, (n1, T1))"
       "split_state (fst v) (fst (snd v)) (snd (snd v)) (n1, T1) = (Some e, w')"
    by (metis surj_pair)
  from d(2) have pass: "states_pass n pre"
    using split_visits_success_iff[of pre n T] by simp
  have dom: "state_user_data n1 (visit_addr v) \<noteq> None \<longleftrightarrow> state_carries_record n pre v"
    using split_visits_dom[OF d(2), of "visit_addr v"]
    by (auto simp: state_carries_record_def)
  from d(3) have "fst (split_state (fst v) (fst (snd v)) (snd (snd v)) (n1, T1)) = Some e" by simp
  then have "if state_carries_record n pre v then e = logic_error ''Precondition R4 failed''
             else lacks_origin v \<and> e = logic_error ''Precondition R3 failed''"
    unfolding split_state_outcome dom[symmetric]
    by (auto simp: lacks_origin_def visit_addr_def split: if_splits)
  with d(1) pass show ?R by blast
next
  assume ?R
  then obtain pre v post where
    d: "vs = pre @ v # post" "states_pass n pre"
       "if state_carries_record n pre v then e = logic_error ''Precondition R4 failed''
        else lacks_origin v \<and> e = logic_error ''Precondition R3 failed''" by blast
  from d(2) obtain n1 T1 where pre: "split_visits pre (n, T) = (None, (n1, T1))"
    using split_visits_success_iff[of pre n T]
    by (cases "split_visits pre (n, T)") auto
  have dom: "state_user_data n1 (visit_addr v) \<noteq> None \<longleftrightarrow> state_carries_record n pre v"
    using split_visits_dom[OF pre, of "visit_addr v"]
    by (auto simp: state_carries_record_def)
  have "fst (split_state (fst v) (fst (snd v)) (snd (snd v)) (n1, T1)) = Some e"
    unfolding split_state_outcome using d(3) dom
    by (auto simp: lacks_origin_def visit_addr_def split: if_splits)
  then obtain w' where "split_state (fst v) (fst (snd v)) (snd (snd v)) (n1, T1) = (Some e, w')"
    by (cases "split_state (fst v) (fst (snd v)) (snd (snd v)) (n1, T1)") auto
  from split_visits_error_conv[OF pre this] d(1) show ?L by simp
qed

lemma transition_infos_outcome:
  "fst (transition_infos ugv ts n) = Some e \<longleftrightarrow>
     (\<exists>pre tr post. ts = pre @ tr # post \<and> transitions_pass n pre
        \<and> transition_carries_record n pre tr
        \<and> e = logic_error ''Precondition Q2 does not hold'')"
  (is "?L \<longleftrightarrow> ?R")
proof
  assume ?L
  then obtain n' where "transition_infos ugv ts n = (Some e, n')"
    by (cases "transition_infos ugv ts n") auto
  from transition_infos_error[OF this] obtain pre tr post n1 where
    d: "ts = pre @ tr # post" "transition_infos ugv pre n = (None, n1)"
       "transition_info ugv tr n1 = (Some e, n')" by blast
  from d(2) have pass: "transitions_pass n pre"
    using transition_infos_success_iff[of ugv pre n] by simp
  have dom: "transition_user_data n1 (tr_addr tr) \<noteq> None \<longleftrightarrow> transition_carries_record n pre tr"
    using transition_infos_dom[OF d(2), of "tr_addr tr"]
    by (auto simp: transition_carries_record_def)
  from d(3) have "transition_carries_record n pre tr \<and> e = logic_error ''Precondition Q2 does not hold''"
    unfolding dom[symmetric]
    by (cases "transition_user_data n1 (tr_addr tr)")
       (auto simp: transition_info_ok transition_info_Q2)
  with d(1) pass show ?R by blast
next
  assume ?R
  then obtain pre tr post where
    d: "ts = pre @ tr # post" "transitions_pass n pre" "transition_carries_record n pre tr"
       "e = logic_error ''Precondition Q2 does not hold''" by blast
  from d(2) obtain n1 where pre: "transition_infos ugv pre n = (None, n1)"
    using transition_infos_success_iff[of ugv pre n]
    by (cases "transition_infos ugv pre n") auto
  have "transition_user_data n1 (tr_addr tr) \<noteq> None"
    using transition_infos_dom[OF pre, of "tr_addr tr"] d(3)
    by (auto simp: transition_carries_record_def split: if_splits)
  then have "transition_info ugv tr n1 = (Some e, n1)"
    using d(4) by (simp add: transition_info_Q2)
  with pre d(1) show ?L by (simp add: transition_infos_append)
qed

lemma compute_tasks_fst:
  "fst (compute_tasks ugv n m) =
     (case fst (split_visits (state_visits n m) (n, tasks_init n m)) of
        Some e \<Rightarrow> Inl e
      | None \<Rightarrow>
          (case fst (transition_infos ugv (transition_visits n)
                  (fst (snd (split_visits (state_visits n m) (n, tasks_init n m))))) of
             Some e \<Rightarrow> Inl e
           | None \<Rightarrow> Inr (snd (snd (split_visits (state_visits n m) (n, tasks_init n m))))))"
  unfolding compute_tasks_unfold
  by (auto split: prod.splits option.splits)

lemma transitions_pass_cong:
  "transition_user_data n1 = transition_user_data n \<Longrightarrow>
     transitions_pass n1 ts = transitions_pass n ts
     \<and> transition_carries_record n1 pre tr = transition_carries_record n pre tr"
  by (simp add: transitions_pass_def transition_carries_record_def)

lemma split_visits_keeps_transition_user_data:
  "transition_user_data (fst (snd (split_visits vs w))) = transition_user_data (fst w)"
proof -
  obtain r w' where sv: "split_visits vs w = (r, w')" by (cases "split_visits vs w")
  from split_visits_grows[OF sv] show ?thesis by (simp add: sv grows_def)
qed

text \<open>Outcome of the whole pass.\<close>

lemma compute_tasks_outcome:
  "fst (compute_tasks ugv n m) = Inl e \<longleftrightarrow>
     (\<exists>pre v post. state_visits n m = pre @ v # post \<and> states_pass n pre
        \<and> (if state_carries_record n pre v then e = logic_error ''Precondition R4 failed''
            else lacks_origin v \<and> e = logic_error ''Precondition R3 failed''))
     \<or> (states_pass n (state_visits n m)
        \<and> (\<exists>pre tr post. transition_visits n = pre @ tr # post \<and> transitions_pass n pre
              \<and> transition_carries_record n pre tr
              \<and> e = logic_error ''Precondition Q2 does not hold''))"
proof -
  let ?sv = "split_visits (state_visits n m) (n, tasks_init n m)"
  let ?n1 = "fst (snd ?sv)"
  have tud: "transition_user_data ?n1 = transition_user_data n"
    using split_visits_keeps_transition_user_data[of "state_visits n m" "(n, tasks_init n m)"] by simp
  show ?thesis
  proof (cases "fst ?sv")
    case (Some e1)
    then have "\<not> states_pass n (state_visits n m)"
      using split_visits_success_iff[of "state_visits n m" n "tasks_init n m"] by simp
    moreover have "fst (compute_tasks ugv n m) = Inl e \<longleftrightarrow> fst ?sv = Some e"
      using Some by (simp add: compute_tasks_fst)
    ultimately show ?thesis
      unfolding split_visits_outcome by simp
  next
    case None
    then have pass: "states_pass n (state_visits n m)"
      using split_visits_success_iff[of "state_visits n m" n "tasks_init n m"] by simp
    have no: "\<not> (\<exists>pre v post. state_visits n m = pre @ v # post \<and> states_pass n pre
        \<and> (if state_carries_record n pre v then e = logic_error ''Precondition R4 failed''
            else lacks_origin v \<and> e = logic_error ''Precondition R3 failed''))"
      using None split_visits_outcome[of "state_visits n m" n "tasks_init n m" e] by simp
    have "fst (compute_tasks ugv n m) = Inl e \<longleftrightarrow>
        fst (transition_infos ugv (transition_visits n) ?n1) = Some e"
      using None by (auto simp: compute_tasks_fst split: option.splits)
    also have "\<dots> \<longleftrightarrow> (\<exists>pre tr post. transition_visits n = pre @ tr # post \<and> transitions_pass n pre
              \<and> transition_carries_record n pre tr
              \<and> e = logic_error ''Precondition Q2 does not hold'')"
      unfolding transition_infos_outcome using transitions_pass_cong[OF tud] by simp
    finally show ?thesis using pass no by blast
  qed
qed

lemma compute_tasks_success_iff:
  "(\<exists>T. fst (compute_tasks ugv n m) = Inr T) \<longleftrightarrow>
     states_pass n (state_visits n m) \<and> transitions_pass n (transition_visits n)"
proof -
  let ?sv = "split_visits (state_visits n m) (n, tasks_init n m)"
  let ?n1 = "fst (snd ?sv)"
  have tud: "transition_user_data ?n1 = transition_user_data n"
    using split_visits_keeps_transition_user_data[of "state_visits n m" "(n, tasks_init n m)"] by simp
  have "(\<exists>T. fst (compute_tasks ugv n m) = Inr T) \<longleftrightarrow>
      fst ?sv = None \<and> fst (transition_infos ugv (transition_visits n) ?n1) = None"
    by (auto simp: compute_tasks_fst split: option.splits)
  also have "\<dots> \<longleftrightarrow> states_pass n (state_visits n m) \<and> transitions_pass n (transition_visits n)"
    using split_visits_success_iff[of "state_visits n m" n "tasks_init n m"]
      transition_infos_success_iff[of ugv "transition_visits n" ?n1]
      transitions_pass_cong[OF tud]
    by simp
  finally show ?thesis .
qed


lemma visit_post_record:
  "visit_post v n T \<Longrightarrow>
     \<exists>p. state_user_data n (visit_addr v) = Some \<lparr>si_st = visit_addr v, si_t = Some p\<rparr>"
  by (auto simp: visit_post_def assigned_to_def assigned_to_idle_def split: option.splits)

lemma transition_infos_error_Q2:
  "transition_infos ugv ts n = (Some e, n') \<Longrightarrow> e = logic_error ''Precondition Q2 does not hold''"
  using transition_infos_outcome[of ugv ts n e] by auto

text \<open>
  Claim C7.  The pass ends with an exception, and so without a result, exactly when a
  check fails, and the message tells which: a double-initialization error exactly when
  it reaches a state (\<open>Precondition R4 failed\<close>) or a transition
  (\<open>Precondition Q2 does not hold\<close>) that already carries a record, every node
  before it having passed; the missing-origin error (\<open>Precondition R3 failed\<close>)
  exactly when it reaches a state partitioned by origin annotation that carries no
  record and has no origin annotation; it returns a result exactly when every state and
  every transition passes, so on well-formed input no error is raised.  No other error
  occurs.
\<close>

theorem compute_tasks_fails_exactly_on_violation:
  "(fst (compute_tasks ugv n main_nts) = Inl (logic_error ''Precondition R4 failed'') \<longleftrightarrow>
      (\<exists>pre v post. state_visits n main_nts = pre @ v # post \<and> states_pass n pre
         \<and> state_carries_record n pre v))
   \<and> (fst (compute_tasks ugv n main_nts) = Inl (logic_error ''Precondition Q2 does not hold'') \<longleftrightarrow>
      states_pass n (state_visits n main_nts)
      \<and> (\<exists>pre tr post. transition_visits n = pre @ tr # post \<and> transitions_pass n pre
            \<and> transition_carries_record n pre tr))
   \<and> (fst (compute_tasks ugv n main_nts) = Inl (logic_error ''Precondition R3 failed'') \<longleftrightarrow>
      (\<exists>pre v post. state_visits n main_nts = pre @ v # post \<and> states_pass n pre
         \<and> \<not> state_carries_record n pre v \<and> lacks_origin v))
   \<and> ((\<exists>T. fst (compute_tasks ugv n main_nts) = Inr T) \<longleftrightarrow>
      states_pass n (state_visits n main_nts) \<and> transitions_pass n (transition_visits n))
   \<and> (\<forall>e. fst (compute_tasks ugv n main_nts) = Inl e \<longrightarrow>
        e = logic_error ''Precondition R4 failed''
        \<or> e = logic_error ''Precondition Q2 does not hold''
        \<or> e = logic_error ''Precondition R3 failed'')"
proof -
  let ?R4 = "logic_error ''Precondition R4 failed''"
  let ?R3 = "logic_error ''Precondition R3 failed''"
  let ?Q2 = "logic_error ''Precondition Q2 does not hold''"
  have r4: "(if c then ?R4 = ?R4 else l \<and> ?R4 = ?R3) = c"
    and r3: "(if c then ?R3 = ?R4 else l \<and> ?R3 = ?R3) = (\<not> c \<and> l)"
    and q2: "(if c then ?Q2 = ?R4 else l \<and> ?Q2 = ?R3) = False" for c l
    by simp_all
  have A: "fst (compute_tasks ugv n main_nts) = Inl ?R4 \<longleftrightarrow>
      (\<exists>pre v post. state_visits n main_nts = pre @ v # post \<and> states_pass n pre
         \<and> state_carries_record n pre v)"
    unfolding compute_tasks_outcome r4 by simp
  have B: "fst (compute_tasks ugv n main_nts) = Inl ?Q2 \<longleftrightarrow>
      states_pass n (state_visits n main_nts)
      \<and> (\<exists>pre tr post. transition_visits n = pre @ tr # post \<and> transitions_pass n pre
            \<and> transition_carries_record n pre tr)"
    unfolding compute_tasks_outcome q2 by simp
  have C: "fst (compute_tasks ugv n main_nts) = Inl ?R3 \<longleftrightarrow>
      (\<exists>pre v post. state_visits n main_nts = pre @ v # post \<and> states_pass n pre
         \<and> \<not> state_carries_record n pre v \<and> lacks_origin v)"
    unfolding compute_tasks_outcome r3 by simp
  have D: "(\<exists>T. fst (compute_tasks ugv n main_nts) = Inr T) \<longleftrightarrow>
      states_pass n (state_visits n main_nts) \<and> transitions_pass n (transition_visits n)"
    by (rule compute_tasks_success_iff)
  have E: "\<forall>e. fst (compute_tasks ugv n main_nts) = Inl e \<longrightarrow> e = ?R4 \<or> e = ?Q2 \<or> e = ?R3"
    unfolding compute_tasks_outcome by (auto split: if_splits)
  show ?thesis by (intro conjI A B C D E)
qed

text \<open>
  Claim C9.  When the missing-origin error is raised, the state that triggered it has
  had a record with a null task attached to its slot, the states visited before it keep
  the records (with their tasks) attached to them, and every record the program came
  with is still there: the program representation is not left as it was.
\<close>

theorem missing_origin_leaves_records:
  assumes "compute_tasks ugv n main_nts = (Inl (logic_error ''Precondition R3 failed''), n')"
  shows "\<exists>pre v post. state_visits n main_nts = pre @ v # post
           \<and> lacks_origin v
           \<and> state_user_data n (visit_addr v) = None
           \<and> state_user_data n' (visit_addr v) = Some \<lparr>si_st = visit_addr v, si_t = None\<rparr>
           \<and> (\<forall>u \<in> set pre. \<exists>p. state_user_data n' (visit_addr u) =
                  Some \<lparr>si_st = visit_addr u, si_t = Some p\<rparr>)
           \<and> (\<forall>a x. state_user_data n a = Some x \<longrightarrow> state_user_data n' a = Some x)
           \<and> state_user_data n' \<noteq> state_user_data n"
proof -
  let ?e = "logic_error ''Precondition R3 failed''"
  let ?w0 = "(n, tasks_init n main_nts)"
  from compute_tasks_Inl_D[OF assms] transition_infos_error_Q2
  obtain T' where sv: "split_visits (state_visits n main_nts) ?w0 = (Some ?e, (n', T'))"
    by fastforce
  from split_visits_error[OF sv] obtain pre v post n1 T1 where
    d: "state_visits n main_nts = pre @ v # post"
       "split_visits pre ?w0 = (None, (n1, T1))"
       "split_state (fst v) (fst (snd v)) (snd (snd v)) (n1, T1) = (Some ?e, (n', T'))"
    by (metis surj_pair)
  from d(3) have
    fresh1: "state_user_data n1 (visit_addr v) = None" and
    lacks: "lacks_origin v" and
    n': "n' = n1\<lparr>state_user_data := (state_user_data n1)(visit_addr v :=
            Some \<lparr>si_st = visit_addr v, si_t = None\<rparr>)\<rparr>"
    by (cases rule: split_state_cases; simp add: visit_addr_def lacks_origin_def)+
  from split_visits_dom[OF d(2), of "visit_addr v"] fresh1
  have fresh: "state_user_data n (visit_addr v) = None" by simp
  have attached: "state_user_data n' (visit_addr v) = Some \<lparr>si_st = visit_addr v, si_t = None\<rparr>"
    by (simp add: n')
  have earlier: "\<exists>p. state_user_data n' (visit_addr u) = Some \<lparr>si_st = visit_addr u, si_t = Some p\<rparr>"
    if "u \<in> set pre" for u
  proof -
    from split_visits_post[OF d(2)] tasks_init_wf that have "visit_post u n1 T1" by simp
    from visit_post_record[OF this] obtain p where
      p: "state_user_data n1 (visit_addr u) = Some \<lparr>si_st = visit_addr u, si_t = Some p\<rparr>" ..
    with fresh1 have "visit_addr u \<noteq> visit_addr v" by auto
    with p show ?thesis by (auto simp: n')
  qed
  from split_visits_grows[OF sv]
  have kept: "\<forall>a x. state_user_data n a = Some x \<longrightarrow> state_user_data n' a = Some x"
    by (simp add: grows_def)
  from fresh attached have changed: "state_user_data n' \<noteq> state_user_data n"
    by (metis option.distinct(1))
  from d(1) lacks fresh attached earlier kept changed show ?thesis by blast
qed

subsection \<open>Ownership of the states\<close>

text \<open>
  Claim C5.  In by-origin-annotation mode (a state of an instantiated unit other than
  the main unit), a state whose origin string contains the separator \<open>:\<close> is owned
  by the registered task named by the part of the string before the first separator; a
  state whose origin string has no separator is owned by the sentinel.
\<close>

theorem origin_parsing:
  assumes "compute_tasks ugv n main_nts = (Inr T, n')"
    and "b \<in> set (instances n)"
    and "bn_name (basic_nts n b) \<noteq> main_nts"
    and "s \<in> set (bn_states (basic_nts n b))"
    and "find_annot_origin (annotations s) = Some origin"
  shows "(if CHR '':'' \<in> set origin
          then assigned_to n' T (st_addr s) (takeWhile (\<lambda>c. c \<noteq> CHR '':'') origin)
          else assigned_to_idle n' (st_addr s))"
proof -
  from assms(2-4) have "(basic_nts n b, True, s) \<in> set (state_visits n main_nts)"
    unfolding state_visits_iff by blast
  with compute_tasks_success(2)[OF assms(1)]
  have post: "visit_post (basic_nts n b, True, s) n' T" by blast
  show ?thesis
  proof (cases "string_find origin CHR '':''")
    case None
    with post assms(5) show ?thesis
      by (simp add: visit_post_def task_name_of_def visit_addr_def string_find_None)
  next
    case (Some pos)
    then have "CHR '':'' \<in> set origin"
      using string_find_None[of origin "CHR '':''"] by simp
    with post assms(5) Some string_find_Some[OF Some] show ?thesis
      by (simp add: visit_post_def task_name_of_def visit_addr_def)
  qed
qed

text \<open>
  Claim C10.  When a unit name or an origin annotation yields the sentinel's name
  \<open>idle_worker_task\<close>, a task of that name is registered beside the sentinel: the
  lookup by that name returns the registered task (an element of \<open>tasks\<close>, not the
  sentinel), the state is owned by it, and the sentinel keeps the same name.
\<close>

theorem sentinel_name_can_be_registered:
  assumes "compute_tasks ugv n main_nts = (Inr T, n')"
    and "b \<in> set (instances n)"
    and "s \<in> set (bn_states (basic_nts n b))"
    and "task_name_of (basic_nts n b) (bn_name (basic_nts n b) \<noteq> main_nts) s = Some ''idle_worker_task''"
  shows "\<exists>i. name_to_task T ''idle_worker_task'' = Some (RegTask i)
            \<and> i < length (tasks T)
            \<and> name (tasks T ! i) = ''idle_worker_task''
            \<and> name (idle_worker_task T) = ''idle_worker_task''
            \<and> RegTask i \<noteq> IdleTask
            \<and> state_user_data n' (st_addr s) = Some \<lparr>si_st = st_addr s, si_t = Some (RegTask i)\<rparr>"
proof -
  from assms(2,3)
  have "(basic_nts n b, bn_name (basic_nts n b) \<noteq> main_nts, s) \<in> set (state_visits n main_nts)"
    unfolding state_visits_iff by blast
  with compute_tasks_success(2)[OF assms(1)]
  have "visit_post (basic_nts n b, bn_name (basic_nts n b) \<noteq> main_nts, s) n' T" by blast
  with assms(4) have "assigned_to n' T (st_addr s) ''idle_worker_task''"
    by (simp add: visit_post_def visit_addr_def)
  moreover have "name (idle_worker_task T) = ''idle_worker_task''"
    using compute_tasks_success(3)[OF assms(1)] by (simp add: Task_new_def)
  ultimately show ?thesis
    unfolding assigned_to_def by auto
qed

text \<open>
  Partition totality.  After a run that returns a result, every state of
  every instantiated unit has a record whose task is set: the sentinel or an element of
  the task list.
\<close>

theorem partition_total:
  assumes "compute_tasks ugv n main_nts = (Inr T, n')"
    and "b \<in> set (instances n)"
    and "s \<in> set (bn_states (basic_nts n b))"
  shows "\<exists>p. state_user_data n' (st_addr s) = Some \<lparr>si_st = st_addr s, si_t = Some p\<rparr>
           \<and> (case p of IdleTask \<Rightarrow> True | RegTask i \<Rightarrow> i < length (tasks T))"
proof -
  from assms(2,3)
  have "(basic_nts n b, bn_name (basic_nts n b) \<noteq> main_nts, s) \<in> set (state_visits n main_nts)"
    unfolding state_visits_iff by blast
  with compute_tasks_success(2)[OF assms(1)]
  have "visit_post (basic_nts n b, bn_name (basic_nts n b) \<noteq> main_nts, s) n' T" by blast
  then show ?thesis
    by (auto simp: visit_post_def assigned_to_def assigned_to_idle_def visit_addr_def
        split: option.splits)
qed

subsection \<open>Transition summaries and a second run\<close>

lemma transition_infos_post:
  "transition_infos ugv ts n = (None, n') \<Longrightarrow> tr \<in> set ts \<Longrightarrow>
     \<exists>n1. transition_user_data n' (tr_addr tr) =
             Some \<lparr>ti_transition = tr_addr tr, ti_global = ugv n1 tr\<rparr>
          \<and> instances n1 = instances n \<and> basic_nts n1 = basic_nts n
          \<and> state_user_data n1 = state_user_data n"
proof (induction ts arbitrary: n)
  case Nil
  then show ?case by simp
next
  case (Cons t ts)
  from Cons.prems(1) have fresh: "transition_user_data n (tr_addr t) = None"
    by (cases "transition_user_data n (tr_addr t)") (auto simp: transition_info_Q2)
  let ?n0 = "n\<lparr>transition_user_data := (transition_user_data n)(tr_addr t :=
                   Some \<lparr>ti_transition = tr_addr t, ti_global = Globals_new\<rparr>)\<rparr>"
  let ?n1 = "n\<lparr>transition_user_data := (transition_user_data n)(tr_addr t :=
          Some \<lparr>ti_transition = tr_addr t, ti_global = ugv ?n0 t\<rparr>)\<rparr>"
  from Cons.prems(1) fresh have rest: "transition_infos ugv ts ?n1 = (None, n')"
    by (simp add: transition_info_ok)
  show ?case
  proof (cases "tr \<in> set ts")
    case True
    from Cons.IH[OF rest True] show ?thesis by simp
  next
    case False
    with Cons.prems(2) have eq: "tr = t" by simp
    have "transition_user_data ?n1 (tr_addr t) =
        Some \<lparr>ti_transition = tr_addr t, ti_global = ugv ?n0 t\<rparr>" by simp
    with transition_infos_frame[OF rest]
    have "transition_user_data n' (tr_addr t) =
        Some \<lparr>ti_transition = tr_addr t, ti_global = ugv ?n0 t\<rparr>" by blast
    moreover have "instances ?n0 = instances n \<and> basic_nts ?n0 = basic_nts n
          \<and> state_user_data ?n0 = state_user_data n" by simp
    ultimately show ?thesis unfolding eq by blast
  qed
qed

text \<open>
  Effect completeness.  After a run that returns a result, every
  transition of every instantiated unit has a record whose summary is the primitive's
  output for that transition, on the program as it was when the primitive was called
  (the same instances and units).
\<close>

theorem effect_complete:
  assumes "compute_tasks ugv n main_nts = (Inr T, n')"
    and "b \<in> set (instances n)"
    and "tr \<in> set (bn_transitions (basic_nts n b))"
  shows "\<exists>n1. transition_user_data n' (tr_addr tr) =
             Some \<lparr>ti_transition = tr_addr tr, ti_global = ugv n1 tr\<rparr>
          \<and> instances n1 = instances n \<and> basic_nts n1 = basic_nts n"
proof -
  from compute_tasks_Inr_D[OF assms(1)] obtain n1 where
    sv: "split_visits (state_visits n main_nts) (n, tasks_init n main_nts) = (None, (n1, T))" and
    ti: "transition_infos ugv (transition_visits n) n1 = (None, n')" by blast
  from split_visits_grows[OF sv] have same: "instances n1 = instances n" "basic_nts n1 = basic_nts n"
    by (simp_all add: grows_def)
  from assms(2,3) have "tr \<in> set (transition_visits n)"
    by (auto simp: transition_visits_def set_foldl_set_insert)
  from transition_infos_post[OF ti this] same show ?thesis by auto
qed

text \<open>
  Single shot.  Running the pass again on the program a successful run
  has left, without resetting the records, raises the double-initialization error at
  the first state visited and changes nothing.
\<close>

theorem second_run_fails:
  assumes "compute_tasks ugv n main_nts = (Inr T, n')"
    and "state_visits n main_nts \<noteq> []"
  shows "compute_tasks ugv' n' main_nts = (Inl (logic_error ''Precondition R4 failed''), n')"
proof -
  from compute_tasks_Inr_D[OF assms(1)] obtain n1 where
    sv: "split_visits (state_visits n main_nts) (n, tasks_init n main_nts) = (None, (n1, T))" and
    ti: "transition_infos ugv (transition_visits n) n1 = (None, n')" by blast
  from split_visits_grows[OF sv] transition_infos_frame[OF ti]
  have same: "instances n' = instances n" "basic_nts n' = basic_nts n"
    by (simp_all add: grows_def)
  have "unit_visits n' main_nts = unit_visits n main_nts"
    by (rule ext) (simp add: unit_visits_def same)
  then have vs: "state_visits n' main_nts = state_visits n main_nts"
    by (simp add: state_visits_def same)
  from assms(2) obtain v rest where vr: "state_visits n main_nts = v # rest"
    by (cases "state_visits n main_nts") auto
  then have "v \<in> set (state_visits n main_nts)" by simp
  with compute_tasks_success(2)[OF assms(1)] have "visit_post v n' T" by blast
  from visit_post_record[OF this] have "state_user_data n' (st_addr (snd (snd v))) \<noteq> None"
    by (auto simp: visit_addr_def)
  then have "split_state (fst v) (fst (snd v)) (snd (snd v)) (n', tasks_init n' main_nts) =
      (Some (logic_error ''Precondition R4 failed''), (n', tasks_init n' main_nts))"
    by (rule split_state_R4)
  then show ?thesis
    unfolding compute_tasks_unfold vs vr by simp
qed

section \<open>The transitive stage\<close>


lemma foldl_union_reads:
  "reads (foldl (\<lambda>g u. Globals_union_with g (direct_global u)) g0 ts) =
     reads g0 \<union> (\<Union>u \<in> set ts. reads (direct_global u))"
  by (induction ts arbitrary: g0) (auto simp: Globals_union_with_def)

lemma foldl_union_everything:
  "everything (writes (foldl (\<lambda>g u. Globals_union_with g (direct_global u)) g0 ts)) \<longleftrightarrow>
     everything (writes g0) \<or> (\<exists>u \<in> set ts. everything (writes (direct_global u)))"
proof (induction ts arbitrary: g0)
  case Nil
  then show ?case by simp
next
  case (Cons t ts)
  have "everything (writes (Globals_union_with g0 (direct_global t))) \<longleftrightarrow>
      everything (writes g0) \<or> everything (writes (direct_global t))"
    by (cases "everything (writes g0)"; cases "everything (writes (direct_global t))")
       (simp_all add: Globals_union_with_def GlobalWrites_union_with_simps)
  with Cons.IH[of "Globals_union_with g0 (direct_global t)"] show ?case by auto
qed

lemma foldl_union_vars:
  "GlobalWrites_I1 (writes g0) \<Longrightarrow>
   vars (writes (foldl (\<lambda>g u. Globals_union_with g (direct_global u)) g0 ts)) =
     (if everything (writes g0) \<or> (\<exists>u \<in> set ts. everything (writes (direct_global u))) then {}
      else vars (writes g0) \<union> (\<Union>u \<in> set ts. vars (writes (direct_global u))))"
proof (induction ts arbitrary: g0)
  case Nil
  then show ?case by (auto simp: GlobalWrites_I1_def)
next
  case (Cons t ts)
  let ?g1 = "Globals_union_with g0 (direct_global t)"
  have inv: "GlobalWrites_I1 (writes ?g1)"
    using Cons.prems
    by (cases "everything (writes g0)"; cases "everything (writes (direct_global t))")
       (simp_all add: Globals_union_with_def GlobalWrites_union_with_simps GlobalWrites_I1_def)
  have ev: "everything (writes ?g1) \<longleftrightarrow>
      everything (writes g0) \<or> everything (writes (direct_global t))"
    by (cases "everything (writes g0)"; cases "everything (writes (direct_global t))")
       (simp_all add: Globals_union_with_def GlobalWrites_union_with_simps)
  have vs: "\<not> everything (writes g0) \<Longrightarrow> \<not> everything (writes (direct_global t)) \<Longrightarrow>
      vars (writes ?g1) = vars (writes g0) \<union> vars (writes (direct_global t))"
    by (simp add: Globals_union_with_def GlobalWrites_union_with_simps)
  show ?case
    using Cons.IH[OF inv] ev vs by (auto simp del: foldl_Cons simp add: foldl_Cons[of _ g0 t ts])
qed

text \<open>
  What the transitive stage would establish, were it run on a \<^verbatim>\<open>Tasks\<close> object
  whose direct summaries are set: the transitive summary of every task is the union of
  the direct summaries of all tasks (its reads are the union of all direct reads, its
  writes are universal exactly when some direct writes are, and otherwise the union of
  the exact direct write sets), so it contains the task's own direct summary.  The
  stage changes neither the tasks' names nor their direct summaries.
  \<^verbatim>\<open>compute_tasks\<close> as given never runs it; see the last theorem of the theory.
\<close>

theorem transitive_is_union_of_all_direct:
  "map name (tasks (compute_transitive_globals this)) = map name (tasks this)
   \<and> map direct_global (tasks (compute_transitive_globals this)) = map direct_global (tasks this)
   \<and> (\<forall>t \<in> set (tasks (compute_transitive_globals this)).
        reads (transitive_global t) = (\<Union>u \<in> set (tasks this). reads (direct_global u))
      \<and> (everything (writes (transitive_global t)) \<longleftrightarrow>
           (\<exists>u \<in> set (tasks this). everything (writes (direct_global u))))
      \<and> vars (writes (transitive_global t)) =
           (if \<exists>u \<in> set (tasks this). everything (writes (direct_global u)) then {}
            else (\<Union>u \<in> set (tasks this). vars (writes (direct_global u))))
      \<and> reads (direct_global t) \<subseteq> reads (transitive_global t)
      \<and> (\<forall>v. GlobalWrites_contains (writes (direct_global t)) v \<longrightarrow>
               GlobalWrites_contains (writes (transitive_global t)) v))"
proof -
  have A: "map name (tasks (compute_transitive_globals this)) = map name (tasks this)"
    by (simp add: compute_transitive_globals_def Let_def)
  have B: "map direct_global (tasks (compute_transitive_globals this)) = map direct_global (tasks this)"
    by (simp add: compute_transitive_globals_def Let_def)
  have C: "\<forall>t \<in> set (tasks (compute_transitive_globals this)).
        reads (transitive_global t) = (\<Union>u \<in> set (tasks this). reads (direct_global u))
      \<and> (everything (writes (transitive_global t)) \<longleftrightarrow>
           (\<exists>u \<in> set (tasks this). everything (writes (direct_global u))))
      \<and> vars (writes (transitive_global t)) =
           (if \<exists>u \<in> set (tasks this). everything (writes (direct_global u)) then {}
            else (\<Union>u \<in> set (tasks this). vars (writes (direct_global u))))
      \<and> reads (direct_global t) \<subseteq> reads (transitive_global t)
      \<and> (\<forall>v. GlobalWrites_contains (writes (direct_global t)) v \<longrightarrow>
               GlobalWrites_contains (writes (transitive_global t)) v)"
  proof
  fix t
  assume "t \<in> set (tasks (compute_transitive_globals this))"
  let ?g = "foldl (\<lambda>g u. Globals_union_with g (direct_global u)) Globals_new (tasks this)"
  from \<open>t \<in> _\<close> obtain u where u: "u \<in> set (tasks this)" "t = u\<lparr>transitive_global := ?g\<rparr>"
    by (auto simp: compute_transitive_globals_def Let_def)
  have tg: "transitive_global t = ?g" and dg: "direct_global t = direct_global u"
    using u(2) by simp_all
  have R: "reads ?g = (\<Union>u \<in> set (tasks this). reads (direct_global u))"
    by (simp add: foldl_union_reads Globals_new_def)
  have E: "everything (writes ?g) \<longleftrightarrow> (\<exists>u \<in> set (tasks this). everything (writes (direct_global u)))"
    by (simp add: foldl_union_everything Globals_new_def GlobalWrites_new_def)
  have "GlobalWrites_I1 (writes Globals_new)"
    by (simp add: Globals_new_def GlobalWrites_new_def GlobalWrites_I1_def)
  from foldl_union_vars[OF this, of "tasks this"]
  have V: "vars (writes ?g) =
         (if \<exists>u \<in> set (tasks this). everything (writes (direct_global u)) then {}
          else (\<Union>u \<in> set (tasks this). vars (writes (direct_global u))))"
    by (simp add: Globals_new_def GlobalWrites_new_def)
  have sub: "reads (direct_global t) \<subseteq> reads ?g"
    unfolding R dg using u(1) by blast
  have con: "GlobalWrites_contains (writes ?g) v"
    if "GlobalWrites_contains (writes (direct_global t)) v" for v
    using that u(1) unfolding GlobalWrites_contains_def E V dg
    by (auto split: if_splits)
  from R E V sub con show
    "reads (transitive_global t) = (\<Union>u \<in> set (tasks this). reads (direct_global u))
    \<and> (everything (writes (transitive_global t)) \<longleftrightarrow>
         (\<exists>u \<in> set (tasks this). everything (writes (direct_global u))))
    \<and> vars (writes (transitive_global t)) =
         (if \<exists>u \<in> set (tasks this). everything (writes (direct_global u)) then {}
          else (\<Union>u \<in> set (tasks this). vars (writes (direct_global u))))
    \<and> reads (direct_global t) \<subseteq> reads (transitive_global t)
    \<and> (\<forall>v. GlobalWrites_contains (writes (direct_global t)) v \<longrightarrow>
             GlobalWrites_contains (writes (transitive_global t)) v)"
    unfolding tg by blast
  qed
  show ?thesis by (rule conjI[OF A conjI[OF B C]])
qed

section \<open>The example programs\<close>


lemmas example_defs = example_nts_def example_main_def example_pool_def example_ugv_def

lemmas eval_defs = compute_tasks_def Tasks_new_def calculate_toplevel_bnts_def
     set_insert_def split_to_tasks_def split_to_tasks_bn_def split_state_def assign_task_def set_task_def
     compute_transition_info_def transition_info_def Task_new_def Globals_new_def GlobalWrites_new_def Let_def

lemma example_visits:
  "state_visits example_nts ''main'' =
     [(example_main, False, \<lparr>st_addr = 10, annotations = []\<rparr>),
      (example_pool, True, \<lparr>st_addr = 20, annotations = [AnnotOther ''origin'', AnnotString ''origin'' ''worker:3:label'']\<rparr>),
      (example_pool, True, \<lparr>st_addr = 21, annotations = [AnnotString ''origin'' ''s_running_1'']\<rparr>),
      (example_pool, True, \<lparr>st_addr = 22, annotations = [AnnotString ''origin'' ''idle_worker_task:0:st'']\<rparr>)]"
  by (simp add: state_visits_def unit_visits_def set_insert_def example_nts_def)
     (simp add: example_main_def example_pool_def)


lemma example_succeeds:
  "\<exists>T n'. compute_tasks example_ugv example_nts ''main'' = (Inr T, n')"
  by (simp add: eval_defs example_defs)

lemma example_missing_fails:
  "\<exists>n'. compute_tasks example_ugv example_missing ''main'' =
      (Inl (logic_error ''Precondition R3 failed''), n')"
  by (simp add: eval_defs example_missing_def example_main_def example_pool_missing_def example_ugv_def)

lemma example_missing_visits:
  "state_visits example_missing ''main'' =
     [(example_main, False, \<lparr>st_addr = 10, annotations = []\<rparr>),
      (example_pool_missing, True, \<lparr>st_addr = 20, annotations = [AnnotString ''origin'' ''worker:3:label'']\<rparr>),
      (example_pool_missing, True, \<lparr>st_addr = 21, annotations = [AnnotOther ''origin'']\<rparr>),
      (example_pool_missing, True, \<lparr>st_addr = 22, annotations = [AnnotString ''origin'' ''worker:4:label'']\<rparr>)]"
  by (simp add: state_visits_def unit_visits_def set_insert_def example_missing_def)
     (simp add: example_main_def example_pool_missing_def)

lemma example_transitions:
  "transition_visits example_nts = [\<lparr>tr_addr = 100, tr_from = 10, tr_to = 10\<rparr>]"
  by (simp add: transition_visits_def set_insert_def example_nts_def)
     (simp add: example_main_def example_pool_def)

lemma example_nts_simps:
  "instances example_nts = [2, 1, 2]"
  "basic_nts example_nts 2 = example_pool"
  "bn_name example_pool = ''thread_pool''"
  "bn_states example_pool =
       [\<lparr>st_addr = 20, annotations = [AnnotOther ''origin'', AnnotString ''origin'' ''worker:3:label'']\<rparr>,
        \<lparr>st_addr = 21, annotations = [AnnotString ''origin'' ''s_running_1'']\<rparr>,
        \<lparr>st_addr = 22, annotations = [AnnotString ''origin'' ''idle_worker_task:0:st'']\<rparr>]"
  by (simp_all add: example_nts_def example_pool_def)

theorem origin_parsing_witness:
  "\<exists>T n'. compute_tasks example_ugv example_nts ''main'' = (Inr T, n')
     \<and> assigned_to n' T 20 ''worker'' \<and> assigned_to_idle n' 21"
proof -
  from example_succeeds obtain T n' where
    run: "compute_tasks example_ugv example_nts ''main'' = (Inr T, n')" by blast
  have "assigned_to n' T 20 ''worker''"
    using origin_parsing[OF run, of 2
        "\<lparr>st_addr = 20, annotations = [AnnotOther ''origin'', AnnotString ''origin'' ''worker:3:label'']\<rparr>"
        "''worker:3:label''"]
    by (simp add: example_nts_simps)
  moreover have "assigned_to_idle n' 21"
    using origin_parsing[OF run, of 2
        "\<lparr>st_addr = 21, annotations = [AnnotString ''origin'' ''s_running_1'']\<rparr>"
        "''s_running_1''"]
    by (simp add: example_nts_simps)
  ultimately show ?thesis using run by blast
qed

theorem sentinel_name_can_be_registered_witness:
  "\<exists>T n' i. compute_tasks example_ugv example_nts ''main'' = (Inr T, n')
     \<and> name_to_task T ''idle_worker_task'' = Some (RegTask i)
     \<and> i < length (tasks T)
     \<and> name (tasks T ! i) = ''idle_worker_task''
     \<and> name (idle_worker_task T) = ''idle_worker_task''
     \<and> state_user_data n' 22 = Some \<lparr>si_st = 22, si_t = Some (RegTask i)\<rparr>"
proof -
  from example_succeeds obtain T n' where
    run: "compute_tasks example_ugv example_nts ''main'' = (Inr T, n')" by blast
  show ?thesis
    using sentinel_name_can_be_registered[OF run, of 2
        "\<lparr>st_addr = 22, annotations = [AnnotString ''origin'' ''idle_worker_task:0:st'']\<rparr>"] run
    by (simp add: example_nts_simps task_name_of_def)
qed

theorem partition_total_witness:
  "\<exists>T n' p. compute_tasks example_ugv example_nts ''main'' = (Inr T, n')
     \<and> state_user_data n' 10 = Some \<lparr>si_st = 10, si_t = Some p\<rparr>"
proof -
  from example_succeeds obtain T n' where
    run: "compute_tasks example_ugv example_nts ''main'' = (Inr T, n')" by blast
  show ?thesis
    using partition_total[OF run, of 1 "\<lparr>st_addr = 10, annotations = []\<rparr>"] run
    by (simp add: example_nts_def example_main_def) blast
qed

theorem effect_complete_witness:
  "\<exists>T n' n1. compute_tasks example_ugv example_nts ''main'' = (Inr T, n')
     \<and> transition_user_data n' 100 =
         Some \<lparr>ti_transition = 100,
               ti_global = example_ugv n1 \<lparr>tr_addr = 100, tr_from = 10, tr_to = 10\<rparr>\<rparr>"
proof -
  from example_succeeds obtain T n' where
    run: "compute_tasks example_ugv example_nts ''main'' = (Inr T, n')" by blast
  show ?thesis
    using effect_complete[OF run, of 1 "\<lparr>tr_addr = 100, tr_from = 10, tr_to = 10\<rparr>"] run
    by (simp add: example_nts_def example_main_def) blast
qed

theorem second_run_fails_witness:
  "\<exists>T n'. compute_tasks example_ugv example_nts ''main'' = (Inr T, n')
     \<and> state_visits example_nts ''main'' \<noteq> []
     \<and> compute_tasks example_ugv n' ''main'' = (Inl (logic_error ''Precondition R4 failed''), n')"
proof -
  from example_succeeds obtain T n' where
    run: "compute_tasks example_ugv example_nts ''main'' = (Inr T, n')" by blast
  have ne: "state_visits example_nts ''main'' \<noteq> []" by (simp add: example_visits)
  from second_run_fails[OF run ne, of example_ugv] run ne show ?thesis by blast
qed

theorem sentinel_never_in_name_to_task_witness:
  "\<exists>T n'. compute_tasks example_ugv example_nts ''main'' = (Inr T, n')
     \<and> name_to_task T ''idle_worker_task'' \<noteq> Some IdleTask
     \<and> assigned_to_idle n' 21"
proof -
  from example_succeeds obtain T n' where
    run: "compute_tasks example_ugv example_nts ''main'' = (Inr T, n')" by blast
  have "name_to_task T ''idle_worker_task'' \<noteq> Some IdleTask"
    by (rule sentinel_never_in_name_to_task[OF run])
  moreover have "assigned_to_idle n' 21"
    using compute_tasks_success(2)[OF run]
    by (simp add: example_visits visit_post_def task_name_of_def visit_addr_def)
  ultimately show ?thesis using run by blast
qed

theorem compute_tasks_fails_exactly_on_violation_witness:
  "states_pass example_nts (state_visits example_nts ''main'')
   \<and> transitions_pass example_nts (transition_visits example_nts)
   \<and> (\<exists>T. fst (compute_tasks example_ugv example_nts ''main'') = Inr T)
   \<and> lacks_origin (example_pool_missing, True, \<lparr>st_addr = 21, annotations = [AnnotOther ''origin'']\<rparr>)
   \<and> fst (compute_tasks example_ugv example_missing ''main'') = Inl (logic_error ''Precondition R3 failed'')"
proof -
  have sp: "states_pass example_nts (state_visits example_nts ''main'')"
    unfolding example_visits
    by (simp add: states_pass_def visit_addr_def lacks_origin_def example_nts_def)
  have tp: "transitions_pass example_nts (transition_visits example_nts)"
    unfolding example_transitions
    by (simp add: transitions_pass_def example_nts_def)
  have lo: "lacks_origin (example_pool_missing, True, \<lparr>st_addr = 21, annotations = [AnnotOther ''origin'']\<rparr>)"
    by (simp add: lacks_origin_def)
  let ?pre = "[(example_main, False, \<lparr>st_addr = 10, annotations = []\<rparr>),
      (example_pool_missing, True, \<lparr>st_addr = 20, annotations = [AnnotString ''origin'' ''worker:3:label'']\<rparr>)]"
  let ?v = "(example_pool_missing, True, \<lparr>st_addr = 21, annotations = [AnnotOther ''origin'']\<rparr>)"
  let ?post = "[(example_pool_missing, True, \<lparr>st_addr = 22, annotations = [AnnotString ''origin'' ''worker:4:label'']\<rparr>)]"
  have "state_visits example_missing ''main'' = ?pre @ ?v # ?post \<and> states_pass example_missing ?pre
     \<and> \<not> state_carries_record example_missing ?pre ?v \<and> lacks_origin ?v"
    unfolding example_missing_visits
    by (simp add: states_pass_def visit_addr_def lacks_origin_def
        state_carries_record_def example_missing_def)
  then have ex: "\<exists>pre v post. state_visits example_missing ''main'' = pre @ v # post
     \<and> states_pass example_missing pre \<and> \<not> state_carries_record example_missing pre v \<and> lacks_origin v"
    by blast
  from sp tp lo ex show ?thesis
    using compute_tasks_fails_exactly_on_violation[of example_ugv example_nts "''main''"]
      compute_tasks_fails_exactly_on_violation[of example_ugv example_missing "''main''"]
    by simp
qed

theorem missing_origin_leaves_records_witness:
  "\<exists>n' pre v post. compute_tasks example_ugv example_missing ''main'' =
        (Inl (logic_error ''Precondition R3 failed''), n')
     \<and> state_visits example_missing ''main'' = pre @ v # post
     \<and> lacks_origin v
     \<and> state_user_data n' (visit_addr v) = Some \<lparr>si_st = visit_addr v, si_t = None\<rparr>
     \<and> state_user_data n' \<noteq> state_user_data example_missing"
proof -
  from example_missing_fails obtain n' where
    run: "compute_tasks example_ugv example_missing ''main'' =
      (Inl (logic_error ''Precondition R3 failed''), n')" by blast
  from missing_origin_leaves_records[OF run] run show ?thesis by blast
qed

theorem transitive_is_union_of_all_direct_witness:
  "tasks (compute_transitive_globals example_tasks) ! 0 \<in> set (tasks (compute_transitive_globals example_tasks))
   \<and> reads (transitive_global (tasks (compute_transitive_globals example_tasks) ! 0)) = {1, 3}
   \<and> everything (writes (transitive_global (tasks (compute_transitive_globals example_tasks) ! 0)))
   \<and> vars (writes (transitive_global (tasks (compute_transitive_globals example_tasks) ! 0))) = {}"
proof -
  have mem: "tasks (compute_transitive_globals example_tasks) ! 0
      \<in> set (tasks (compute_transitive_globals example_tasks))"
    by (simp add: compute_transitive_globals_def example_tasks_def Let_def)
  have ts: "set (tasks example_tasks) =
     {(Task_new ''a'')\<lparr>direct_global := \<lparr>reads = {1}, writes = \<lparr>vars = {2}, everything = False\<rparr>\<rparr>\<rparr>,
      (Task_new ''b'')\<lparr>direct_global := \<lparr>reads = {3}, writes = \<lparr>vars = {}, everything = True\<rparr>\<rparr>\<rparr>}"
    by (simp add: example_tasks_def)
  from transitive_is_union_of_all_direct[of example_tasks] mem
  show ?thesis
    by (simp add: ts insert_commute)
qed

text \<open>
  Claim C1.  The pass as given stops after the transition records: on the example
  program it returns three tasks whose direct and transitive summaries and state lists
  are still the default-constructed, empty ones, although the transition that leaves
  the main task's state reads variable 7, and \<^verbatim>\<open>main_task\<close> has not been assigned.
  (Every state does have an owner and the transition its summary.)
\<close>

theorem compute_tasks_leaves_summaries_unset:
  "case compute_tasks example_ugv example_nts ''main'' of
     (Inr T, n') \<Rightarrow>
        map name (tasks T) = [''main'', ''worker'', ''idle_worker_task'']
        \<and> state_user_data n' 10 = Some \<lparr>si_st = 10, si_t = Some (RegTask 0)\<rparr>
        \<and> transition_user_data n' 100 =
            Some \<lparr>ti_transition = 100, ti_global = \<lparr>reads = {7}, writes = \<lparr>vars = {}, everything = False\<rparr>\<rparr>\<rparr>
        \<and> map direct_global (tasks T) = [Globals_new, Globals_new, Globals_new]
        \<and> map transitive_global (tasks T) = [Globals_new, Globals_new, Globals_new]
        \<and> map states (tasks T) = [[], [], []]
        \<and> reads Globals_new = {}
        \<and> main_task T = None
   | (Inl e, n') \<Rightarrow> False"
  by (simp add: eval_defs example_defs)


end
